theory Spec2Isabelle
  imports Main "HOL-Library.Word"
begin

unbundle bit_operations_syntax

section \<open>TXB texture loading (graphics/images/txb.cpp)\<close>

text \<open>
  A shallow embedding of \<^verbatim>\<open>Graphics::TXB\<close>: the header parser with its
  mip-map chain loop, the pixel data reader, the TXI tail reader and \<^verbatim>\<open>load()\<close>.
  The C++ members carry a leading underscore, which an Isabelle name cannot;
  the member \<^verbatim>\<open>_x\<close> is the record field \<open>mX\<close>, and the fields of
  \<^verbatim>\<open>struct MipMap\<close> are \<open>mmWidth\<close>, \<open>mmHeight\<close>, \<open>mmSize\<close>, \<open>mmData\<close>.
  Local variables keep their names.
\<close>

subsection \<open>Machine integers\<close>

type_synonym byte = "8 word"
type_synonym uint16 = "16 word"
type_synonym uint32 = "32 word"

definition kEncodingBGRA :: byte where "kEncodingBGRA = 0x04"
definition kEncodingDXT1 :: byte where "kEncodingDXT1 = 0x0A"
definition kEncodingDXT5 :: byte where "kEncodingDXT5 = 0x0C"

subsection \<open>The byte stream\<close>

text \<open>
  Modelled from the spec: \<^verbatim>\<open>Common::SeekableReadStream\<close> (common/stream.h) is an
  external collaborator whose code is not among the sources. The model is a
  seekable in-memory stream: the bytes, the read position and the I/O error
  flag that \<^verbatim>\<open>err()\<close> reports. \<^verbatim>\<open>size()\<close> and \<^verbatim>\<open>pos()\<close> are 32 bit values.
  A read delivers the bytes that are left, at most as many as asked for, and
  advances the position by what it delivered; a scalar read takes the bytes it
  can get and leaves the missing ones zero; \<^verbatim>\<open>skip\<close> and \<^verbatim>\<open>seek\<close> move the
  position without looking at the data.
\<close>

record stream =
  sdata :: "byte list"
  spos  :: nat
  serr  :: bool

definition size_s :: "stream \<Rightarrow> uint32" where
  "size_s s = of_nat (length (sdata s))"

definition pos_s :: "stream \<Rightarrow> uint32" where
  "pos_s s = of_nat (spos s)"

definition err_s :: "stream \<Rightarrow> bool" where
  "err_s s = serr s"

definition read_s :: "stream \<Rightarrow> nat \<Rightarrow> byte list \<times> stream" where
  "read_s s n =
     (let bs = take n (drop (spos s) (sdata s))
      in (bs, s\<lparr>spos := spos s + length bs\<rparr>))"

definition seek_s :: "stream \<Rightarrow> uint32 \<Rightarrow> stream" where
  "seek_s s n = s\<lparr>spos := unat n\<rparr>"

definition skip_s :: "stream \<Rightarrow> nat \<Rightarrow> stream" where
  "skip_s s n = s\<lparr>spos := spos s + n\<rparr>"

text \<open>
  \<^verbatim>\<open>buf = new byte[n]; read(buf, n)\<close>: the fresh buffer of \<open>n\<close> bytes after the
  read, the number of bytes the read delivered, and the stream. The part of
  the buffer that the read did not reach is indeterminate in C++; it is kept
  as zero bytes, and nothing below looks at it.
\<close>

definition read_new :: "stream \<Rightarrow> nat \<Rightarrow> byte list \<times> nat \<times> stream" where
  "read_new s n =
     (let (bs, s') = read_s s n
      in (bs @ replicate (n - length bs) 0, length bs, s'))"

definition readByte :: "stream \<Rightarrow> byte \<times> stream" where
  "readByte s =
     (case read_s s 1 of
        ([], s') \<Rightarrow> (0, s')
      | (b # _, s') \<Rightarrow> (b, s'))"

definition readUint16LE :: "stream \<Rightarrow> uint16 \<times> stream" where
  "readUint16LE s =
     (let (a, s1) = readByte s;
          (b, s2) = readByte s1
      in (push_bit 8 (ucast b) OR ucast a, s2))"

definition readUint32LE :: "stream \<Rightarrow> uint32 \<times> stream" where
  "readUint32LE s =
     (let (a, s1) = readUint16LE s;
          (b, s2) = readUint16LE s1
      in (push_bit 16 (ucast b) OR ucast a, s2))"

subsection \<open>Exceptions\<close>

text \<open>
  \<^verbatim>\<open>Common::Exception\<close> (common/error.h, not among the sources) is built from a
  printf format and its arguments and collects further lines through
  \<^verbatim>\<open>add\<close>. A line is kept as the format with the argument values, an
  exception as the stack of its lines, oldest first.
\<close>

datatype message = Message string "nat list"

type_synonym exception = "message list"

definition Exception :: "string \<Rightarrow> nat list \<Rightarrow> exception" where
  "Exception fmt args = [Message fmt args]"

definition kReadError :: exception where
  "kReadError = Exception ''Read error'' []"

definition add_e :: "exception \<Rightarrow> string \<Rightarrow> exception" where
  "add_e e line = e @ [Message line []]"

subsection \<open>The decoder object\<close>

datatype PixelFormat = kPixelFormatBGR | kPixelFormatBGRA
datatype PixelFormatRaw = kPixelFormatRGBA8 | kPixelFormatDXT1 | kPixelFormatDXT5
datatype PixelDataType = kPixelDataType8

text \<open>
  A mip map: dimensions, byte size and the pixel buffer; \<open>None\<close> is the null
  pointer.
\<close>

record MipMap =
  mmWidth  :: uint32
  mmHeight :: uint32
  mmSize   :: uint32
  mmData   :: "byte list option"

text \<open>
  The members of \<^verbatim>\<open>TXB\<close> and of its base \<^verbatim>\<open>ImageDecoder\<close> that txb.cpp
  touches. \<open>mTxb = None\<close> is the null stream pointer: the stream is gone.
\<close>

record TXB =
  mTxb         :: "stream option"
  mDataSize    :: uint32
  mTxiData     :: "byte list option"
  mTxiDataSize :: uint32
  mCompressed  :: bool
  mHasAlpha    :: bool
  mFormat      :: PixelFormat
  mFormatRaw   :: PixelFormatRaw
  mDataType    :: PixelDataType
  mMipMaps     :: "MipMap list"

text \<open>
  The constructor (lines 27-31) takes the stream and zeroes the TXI members.
  Modelled from the spec: the base class constructor is not among the sources;
  the vector of mip maps starts empty and the format members, which
  \<^verbatim>\<open>readHeader\<close> overwrites before anything reads them, start at the raw BGRA
  values.
\<close>

definition TXB_new :: "stream \<Rightarrow> TXB" where
  "TXB_new txb =
     \<lparr>mTxb = Some txb, mDataSize = 0, mTxiData = None, mTxiDataSize = 0,
      mCompressed = False, mHasAlpha = False, mFormat = kPixelFormatBGRA,
      mFormatRaw = kPixelFormatRGBA8, mDataType = kPixelDataType8,
      mMipMaps = []\<rparr>"

subsection \<open>readHeader\<close>

text \<open>
  Lines 71-88: the fields of the 128 byte header, in the order they are read:
  \<open>(dataSize, width, height, encoding, mipMapCount)\<close> and the stream behind
  the header. Width and height are 16 bit values widened to \<^verbatim>\<open>uint32\<close>.
\<close>

definition readFields :: "stream \<Rightarrow> (uint32 \<times> uint32 \<times> uint32 \<times> byte \<times> byte) \<times> stream" where
  "readFields txb =
     (let (dataSize, s1) = readUint32LE txb;
          s2 = skip_s s1 4;
          (w16, s3) = readUint16LE s2;
          (h16, s4) = readUint16LE s3;
          (encoding, s5) = readByte s4;
          (mipMapCount, s6) = readByte s5;
          s7 = skip_s s6 2;
          s8 = skip_s s7 4;
          s9 = skip_s s8 108
      in ((dataSize, ucast w16, ucast h16, encoding, mipMapCount), s9))"

text \<open>
  Lines 90-135: the encoding decides the format members, the minimum level
  size and the size of the first level, or throws. The result is the exception
  or \<open>(compressed, hasAlpha, format, formatRaw, dataType, minDataSize, mipMapSize)\<close>.
  All sizes are \<^verbatim>\<open>uint32\<close>: products wrap and the division truncates.
\<close>

definition encodingSizes ::
  "byte \<Rightarrow> uint32 \<Rightarrow> uint32 \<Rightarrow> byte \<Rightarrow> uint32 \<Rightarrow>
   exception + (bool \<times> bool \<times> PixelFormat \<times> PixelFormatRaw \<times> PixelDataType \<times> uint32 \<times> uint32)" where
  "encodingSizes encoding width height mipMapCount dataSize =
     (if encoding = kEncodingBGRA then
        Inr (False, True, kPixelFormatBGRA, kPixelFormatRGBA8, kPixelDataType8,
             4, width * height * 4)
      else if encoding = kEncodingDXT1 then
        Inr (True, False, kPixelFormatBGR, kPixelFormatDXT1, kPixelDataType8,
             8, width * height div 2)
      else if encoding = kEncodingDXT5 then
        Inr (True, True, kPixelFormatBGRA, kPixelFormatDXT5, kPixelDataType8,
             16, width * height)
      else if encoding = 0x09 then
        Inl (Exception ''Unsupported TXB encoding 0x09'' [])
      else
        Inl (Exception ''Unknown TXB encoding 0x%02X (%dx%d, %d, %d)''
               [unat encoding, unat width, unat height, unat mipMapCount, unat dataSize]))"

text \<open>
  Lines 138-168: the loop over the mip map levels. The result is the vector
  of mip maps, the local \<open>dataSize\<close> that is left, and, as a record of the
  control flow only, the exit the loop took. The counter \<open>i\<close> is a
  \<^verbatim>\<open>uint32\<close> and the count a byte, widened for the comparison. The mip map
  that an iteration allocates and then drops at one of the first two breaks
  never reaches the vector (the first break does not even delete it); the
  model builds it only where it is appended.
\<close>

datatype loop_exit =
    CountReached      \<comment> \<open>the loop condition \<open>i < mipMapCount\<close> failed\<close>
  | InvalidDimensions \<comment> \<open>the break of line 146\<close>
  | WouldntFit        \<comment> \<open>the break of line 155\<close>
  | BothBelowOne      \<comment> \<open>the break of line 167\<close>

function mipMapLoop ::
  "uint32 \<Rightarrow> byte \<Rightarrow> uint32 \<Rightarrow> uint32 \<Rightarrow> uint32 \<Rightarrow> uint32 \<Rightarrow> uint32 \<Rightarrow> MipMap list
   \<Rightarrow> MipMap list \<times> uint32 \<times> loop_exit" where
  "mipMapLoop i mipMapCount minDataSize width height mipMapSize dataSize mipMaps =
     (if i < ucast mipMapCount then
        if (width < 4 \<or> height < 4) \<and> width \<noteq> height then
          (mipMaps, dataSize, InvalidDimensions)
        else
          let mipMap = \<lparr>mmWidth = max width 1, mmHeight = max height 1,
                        mmSize = max mipMapSize minDataSize, mmData = None\<rparr>
          in if dataSize < mmSize mipMap then
               (mipMaps, dataSize, WouldntFit)
             else
               let dataSize' = dataSize - mmSize mipMap;
                   mipMaps' = mipMaps @ [mipMap];
                   width' = drop_bit 1 width;
                   height' = drop_bit 1 height;
                   mipMapSize' = drop_bit 2 mipMapSize
               in if width' < 1 \<and> height' < 1 then
                    (mipMaps', dataSize', BothBelowOne)
                  else
                    mipMapLoop (i + 1) mipMapCount minDataSize width' height'
                      mipMapSize' dataSize' mipMaps'
      else (mipMaps, dataSize, CountReached))"
  by pat_completeness auto

termination mipMapLoop
proof (relation "measure (\<lambda>(i, mipMapCount, _). unat (ucast mipMapCount :: uint32) - unat i)")
  show "wf (measure (\<lambda>(i, mipMapCount, _). unat (ucast mipMapCount :: uint32) - unat i))"
    by simp
next
  fix i :: uint32 and mipMapCount :: byte
    and minDataSize width height mipMapSize dataSize :: uint32
    and mipMaps :: "MipMap list"
    and x xa xb xc xd xe
  assume "i < ucast mipMapCount"
  then have below: "unat i < unat (ucast mipMapCount :: uint32)"
    by (simp add: word_less_nat_alt)
  moreover have "unat (ucast mipMapCount :: uint32) < 2 ^ 32"
    using unsigned_less [of "ucast mipMapCount :: uint32", where 'a = nat] by simp
  ultimately have "unat i + unat (1 :: uint32) < 2 ^ LENGTH(32)" by simp
  then have "unat (i + 1) = unat i + unat (1 :: uint32)"
    by (simp only: unat_add_lem)
  with below show "((i + 1, mipMapCount, minDataSize, xc, xd, xe, xa, xb),
              (i, mipMapCount, minDataSize, width, height, mipMapSize, dataSize, mipMaps))
             \<in> measure (\<lambda>(i, mipMapCount, _). unat (ucast mipMapCount :: uint32) - unat i)"
    by simp
qed

text \<open>
  \<^verbatim>\<open>readHeader\<close> (lines 69-170). It works on the stream and on the object and
  returns the exception it threw, if any, with both as it left them.
\<close>

definition readHeader :: "stream \<Rightarrow> TXB \<Rightarrow> exception option \<times> stream \<times> TXB" where
  "readHeader txb t =
     (let ((dataSize, width, height, encoding, mipMapCount), txb') = readFields txb;
          t1 = t\<lparr>mDataSize := dataSize\<rparr>
      in case encodingSizes encoding width height mipMapCount dataSize of
           Inl e \<Rightarrow> (Some e, txb', t1)
         | Inr (compressed, hasAlpha, format, formatRaw, dataType, minDataSize, mipMapSize) \<Rightarrow>
             let t2 = t1\<lparr>mCompressed := compressed, mHasAlpha := hasAlpha, mFormat := format,
                         mFormatRaw := formatRaw, mDataType := dataType\<rparr>;
                 (mipMaps, _, _) =
                   mipMapLoop 0 mipMapCount minDataSize width height mipMapSize dataSize
                     (mMipMaps t2)
             in (None, txb', t2\<lparr>mMipMaps := mipMaps\<rparr>))"

subsection \<open>readData\<close>

text \<open>
  Lines 172-179: every mip map of the vector, in order, gets a buffer of its
  size and is filled from the stream; a short read throws and leaves the
  vector as it is at that moment.
\<close>

fun readData_vec :: "stream \<Rightarrow> MipMap list \<Rightarrow> exception option \<times> stream \<times> MipMap list" where
  "readData_vec txb [] = (None, txb, [])"
| "readData_vec txb (mipMap # rest) =
     (let (buf, n, txb') = read_new txb (unat (mmSize mipMap));
          mipMap' = mipMap\<lparr>mmData := Some buf\<rparr>
      in if n \<noteq> unat (mmSize mipMap) then (Some kReadError, txb', mipMap' # rest)
         else case readData_vec txb' rest of
                (r, txb'', rest') \<Rightarrow> (r, txb'', mipMap' # rest'))"

definition readData :: "stream \<Rightarrow> TXB \<Rightarrow> exception option \<times> stream \<times> TXB" where
  "readData txb t =
     (case readData_vec txb (mMipMaps t) of
        (r, txb', mipMaps) \<Rightarrow> (r, txb', t\<lparr>mMipMaps := mipMaps\<rparr>))"

subsection \<open>readTXIData and getTXI\<close>

text \<open>Lines 181-192.\<close>

definition readTXIData :: "stream \<Rightarrow> TXB \<Rightarrow> exception option \<times> stream \<times> TXB" where
  "readTXIData txb t =
     (let t1 = t\<lparr>mTxiDataSize := size_s txb - pos_s txb\<rparr>
      in if mTxiDataSize t1 = 0 then (None, txb, t1)
         else
           let (buf, n, txb') = read_new txb (unat (mTxiDataSize t1));
               t2 = t1\<lparr>mTxiData := Some buf\<rparr>
           in if n \<noteq> unat (mTxiDataSize t2) then (Some kReadError, txb', t2)
              else (None, txb', t2))"

text \<open>
  \<^verbatim>\<open>new Common::MemoryReadStream(data, size)\<close>: a stream over the first
  \<open>size\<close> bytes of the buffer.
\<close>

definition MemoryReadStream :: "byte list \<Rightarrow> uint32 \<Rightarrow> stream" where
  "MemoryReadStream buf n = \<lparr>sdata = take (unat n) buf, spos = 0, serr = False\<rparr>"

text \<open>Lines 62-67; \<open>None\<close> is the null pointer it returns.\<close>

definition getTXI :: "TXB \<Rightarrow> stream option" where
  "getTXI t =
     (case mTxiData t of
        None \<Rightarrow> None
      | Some buf \<Rightarrow>
          if mTxiDataSize t = 0 then None
          else Some (MemoryReadStream buf (mTxiDataSize t)))"

subsection \<open>load\<close>

text \<open>
  The body of the \<^verbatim>\<open>try\<close> block (lines 43-51), on the stream that \<^verbatim>\<open>_txb\<close>
  points to. \<open>seekTXI\<close> is the seek of line 46.
\<close>

definition seekTXI :: "stream \<Rightarrow> TXB \<Rightarrow> stream" where
  "seekTXI txb t = seek_s txb (mDataSize t + 128)"

definition load_try :: "stream \<Rightarrow> TXB \<Rightarrow> exception option \<times> stream \<times> TXB" where
  "load_try txb t =
     (case readHeader txb t of
        (Some e, txb1, t1) \<Rightarrow> (Some e, txb1, t1)
      | (None, txb1, t1) \<Rightarrow>
          (case readData txb1 t1 of
             (Some e, txb2, t2) \<Rightarrow> (Some e, txb2, t2)
           | (None, txb2, t2) \<Rightarrow>
               (case readTXIData (seekTXI txb2 t2) t2 of
                  (Some e, txb3, t3) \<Rightarrow> (Some e, txb3, t3)
                | (None, txb3, t3) \<Rightarrow>
                    if err_s txb3 then (Some kReadError, txb3, t3)
                    else (None, txb3, t3))))"

text \<open>
  \<^verbatim>\<open>load()\<close> (lines 37-60) returns the exception that leaves it, if any, and
  the object. On the normal path the stream is deleted and the pointer
  cleared; the handler adds a line to the exception and throws it on, and the
  pointer keeps pointing to the stream as the failed read left it.
\<close>

definition load :: "TXB \<Rightarrow> exception option \<times> TXB" where
  "load t =
     (case mTxb t of
        None \<Rightarrow> (None, t)
      | Some txb \<Rightarrow>
          (case load_try txb t of
             (Some e, txb', t') \<Rightarrow>
               (Some (add_e e ''Failed reading TXB file''), t'\<lparr>mTxb := Some txb'\<rparr>)
           | (None, txb', t') \<Rightarrow> (None, t'\<lparr>mTxb := None\<rparr>)))"

subsection \<open>Notions for the statements\<close>

text \<open>The condition of line 144.\<close>

definition invalidDims :: "uint32 \<Rightarrow> uint32 \<Rightarrow> bool" where
  "invalidDims width height = ((width < 4 \<or> height < 4) \<and> width \<noteq> height)"

text \<open>The mip map that one iteration builds (lines 141-150).\<close>

definition level :: "uint32 \<Rightarrow> uint32 \<Rightarrow> uint32 \<Rightarrow> uint32 \<Rightarrow> MipMap" where
  "level width height mipMapSize minDataSize =
     \<lparr>mmWidth = max width 1, mmHeight = max height 1,
      mmSize = max mipMapSize minDataSize, mmData = None\<rparr>"

text \<open>
  A level is well-formed for a minimum size and bounded by the dimensions the
  loop is at; one level is not larger than another in either dimension.
\<close>

definition levelOk :: "uint32 \<Rightarrow> uint32 \<Rightarrow> uint32 \<Rightarrow> MipMap \<Rightarrow> bool" where
  "levelOk minDataSize width height x =
     (1 \<le> mmWidth x \<and> 1 \<le> mmHeight x \<and> minDataSize \<le> mmSize x \<and>
      mmWidth x \<le> max width 1 \<and> mmHeight x \<le> max height 1)"

definition notLarger :: "MipMap \<Rightarrow> MipMap \<Rightarrow> bool" where
  "notLarger a b = (mmWidth b \<le> mmWidth a \<and> mmHeight b \<le> mmHeight a)"

text \<open>Width, height and byte size of a level, as numbers.\<close>

definition dims :: "MipMap \<Rightarrow> nat \<times> nat \<times> nat" where
  "dims x = (unat (mmWidth x), unat (mmHeight x), unat (mmSize x))"

text \<open>A level holds a buffer, of exactly its byte size.\<close>

definition holdsBuffer :: "MipMap \<Rightarrow> bool" where
  "holdsBuffer x = (case mmData x of None \<Rightarrow> False | Some buf \<Rightarrow> length buf = unat (mmSize x))"





text \<open>The minimum level size and the first level's size that the encoding gave.\<close>

definition levelSizes ::
  "exception + (bool \<times> bool \<times> PixelFormat \<times> PixelFormatRaw \<times> PixelDataType \<times> uint32 \<times> uint32)
   \<Rightarrow> (nat \<times> nat) option" where
  "levelSizes r =
     (case r of
        Inl _ \<Rightarrow> None
      | Inr (_, _, _, _, _, minDataSize, mipMapSize) \<Rightarrow> Some (unat minDataSize, unat mipMapSize))"

text \<open>
  A stream over a byte list, and the 128 bytes of a header with the given
  fields, the unused and reserved bytes zero.
\<close>

definition memStream :: "byte list \<Rightarrow> stream" where
  "memStream bs = \<lparr>sdata = bs, spos = 0, serr = False\<rparr>"

definition headerBytes :: "uint32 \<Rightarrow> uint16 \<Rightarrow> uint16 \<Rightarrow> byte \<Rightarrow> byte \<Rightarrow> byte list" where
  "headerBytes dataSize w16 h16 encoding mipMapCount =
     [ucast dataSize, ucast (drop_bit 8 dataSize),
      ucast (drop_bit 16 dataSize), ucast (drop_bit 24 dataSize),
      0, 0, 0, 0,
      ucast w16, ucast (drop_bit 8 w16),
      ucast h16, ucast (drop_bit 8 h16),
      encoding, mipMapCount, 0, 0, 0, 0, 0, 0] @ replicate 108 0"

section \<open>The mip map loop\<close>

declare mipMapLoop.simps [simp del]

lemma mipMapLoop_unfold:
  "mipMapLoop i c m w h sz d ms =
     (if \<not> i < ucast c then (ms, d, CountReached)
      else if invalidDims w h then (ms, d, InvalidDimensions)
      else if d < max sz m then (ms, d, WouldntFit)
      else if drop_bit 1 w < 1 \<and> drop_bit 1 h < 1
        then (ms @ [level w h sz m], d - max sz m, BothBelowOne)
      else mipMapLoop (i + 1) c m (drop_bit 1 w) (drop_bit 1 h) (drop_bit 2 sz)
             (d - max sz m) (ms @ [level w h sz m]))"
  by (subst mipMapLoop.simps) (simp add: invalidDims_def level_def Let_def del: One_nat_def)

lemma mipMapLoop_induct [case_names step]:
  fixes P :: "uint32 \<Rightarrow> byte \<Rightarrow> uint32 \<Rightarrow> uint32 \<Rightarrow> uint32 \<Rightarrow> uint32 \<Rightarrow> uint32 \<Rightarrow> MipMap list \<Rightarrow> bool"
  assumes "\<And>i c m w h sz d ms.
     (i < ucast c \<Longrightarrow> \<not> invalidDims w h \<Longrightarrow> \<not> d < max sz m \<Longrightarrow>
      \<not> (drop_bit 1 w < 1 \<and> drop_bit 1 h < 1) \<Longrightarrow>
      P (i + 1) c m (drop_bit 1 w) (drop_bit 1 h) (drop_bit 2 sz) (d - max sz m)
        (ms @ [level w h sz m]))
     \<Longrightarrow> P i c m w h sz d ms"
  shows "P i c m w h sz d ms"
proof (induction i c m w h sz d ms rule: mipMapLoop.induct)
  case (1 i c m w h sz d ms)
  show ?case
  proof (rule assms)
    assume a: "i < ucast c" "\<not> invalidDims w h" "\<not> d < max sz m"
      "\<not> (drop_bit 1 w < 1 \<and> drop_bit 1 h < 1)"
    define x where "x = \<lparr>mmWidth = max w 1, mmHeight = max h 1,
                          mmSize = max sz m, mmData = None\<rparr>"
    have sz: "mmSize x = max sz m" by (simp add: x_def)
    have "P (i + 1) c m (drop_bit 1 w) (drop_bit 1 h) (drop_bit 2 sz) (d - mmSize x) (ms @ [x])"
      by (rule "1.IH" [OF a(1) _ x_def _ refl refl refl refl refl])
         (use a in \<open>simp_all add: invalidDims_def sz del: One_nat_def\<close>)
    then show "P (i + 1) c m (drop_bit 1 w) (drop_bit 1 h) (drop_bit 2 sz) (d - max sz m)
        (ms @ [level w h sz m])"
      by (simp add: sz level_def x_def del: One_nat_def)
  qed
qed

lemma mipMapLoop_append:
  "mipMapLoop i c m w h sz d (xs @ ms) =
     apfst ((@) xs) (mipMapLoop i c m w h sz d ms)"
proof (induction i c m w h sz d ms rule: mipMapLoop_induct)
  case (step i c m w h sz d ms)
  show ?case
    apply (subst mipMapLoop_unfold)
    apply (subst (2) mipMapLoop_unfold)
    using step by (simp del: One_nat_def add: apfst_def map_prod_def split: prod.splits)
qed


lemma mipMapLoop_Nil:
  "mipMapLoop i c m w h sz d [] =
     (if \<not> i < ucast c then ([], d, CountReached)
      else if invalidDims w h then ([], d, InvalidDimensions)
      else if d < max sz m then ([], d, WouldntFit)
      else if drop_bit 1 w < 1 \<and> drop_bit 1 h < 1
        then ([level w h sz m], d - max sz m, BothBelowOne)
      else apfst ((#) (level w h sz m))
             (mipMapLoop (i + 1) c m (drop_bit 1 w) (drop_bit 1 h) (drop_bit 2 sz)
                (d - max sz m) []))"
  apply (subst mipMapLoop_unfold)
  using mipMapLoop_append [of "i + 1" c m "drop_bit 1 w" "drop_bit 1 h" "drop_bit 2 sz"
      "d - max sz m" "[level w h sz m]" "[]"]
  by (simp del: One_nat_def add: apfst_def map_prod_def split: prod.splits)

lemma chain_induct [case_names step]:
  fixes P :: "uint32 \<Rightarrow> byte \<Rightarrow> uint32 \<Rightarrow> uint32 \<Rightarrow> uint32 \<Rightarrow> uint32 \<Rightarrow> uint32 \<Rightarrow> bool"
  assumes "\<And>i c m w h sz d.
     (i < ucast c \<Longrightarrow> \<not> invalidDims w h \<Longrightarrow> \<not> d < max sz m \<Longrightarrow>
      \<not> (drop_bit 1 w < 1 \<and> drop_bit 1 h < 1) \<Longrightarrow>
      P (i + 1) c m (drop_bit 1 w) (drop_bit 1 h) (drop_bit 2 sz) (d - max sz m))
     \<Longrightarrow> P i c m w h sz d"
  shows "P i c m w h sz d"
  using assms
  by (rule mipMapLoop_induct [where P = "\<lambda>i c m w h sz d ms. P i c m w h sz d" and ms = "[]"])

lemma unat_inc_below: "i < (n :: uint32) \<Longrightarrow> unat (i + 1) = Suc (unat i)"
proof -
  assume "i < n"
  then have "unat i < unat n" by (simp add: word_less_nat_alt)
  moreover have "unat n < 2 ^ 32" using unsigned_less [of n, where 'a = nat] by simp
  ultimately have "unat i + unat (1 :: uint32) < 2 ^ LENGTH(32)" by simp
  then have "unat (i + 1) = unat i + unat (1 :: uint32)"
    by (simp only: unat_add_lem)
  then show ?thesis by simp
qed

lemma drop_bit_word_le: "drop_bit n (w :: uint32) \<le> w"
  unfolding word_le_nat_alt unat_drop_bit_eq by (simp add: drop_bit_eq_div)

lemma max_halve_le: "max (drop_bit n (w :: uint32)) 1 \<le> max w 1"
  using drop_bit_word_le [of n w] by (simp add: max.coboundedI1)

lemma chain_length:
  "length (fst (mipMapLoop i c m w h sz d [])) \<le> unat (ucast c :: uint32) - unat i"
proof (induction i c m w h sz d rule: chain_induct)
  case (step i c m w h sz d)
  show ?case
  proof (cases "i < ucast c")
    case False
    then show ?thesis by (subst mipMapLoop_Nil) simp
  next
    case True
    then have lt: "unat i < unat (ucast c :: uint32)" and suc: "unat (i + 1) = Suc (unat i)"
      by (simp_all add: word_less_nat_alt unat_inc_below)
    show ?thesis
      apply (subst mipMapLoop_Nil)
      using step True lt suc
      by (auto simp del: One_nat_def)
  qed
qed

lemma levelOk_level: "levelOk m w h (level w h sz m)"
  by (simp add: levelOk_def level_def)

lemma levelOk_halve: "levelOk m (drop_bit k w) (drop_bit k h) x \<Longrightarrow> levelOk m w h x"
  unfolding levelOk_def
  using max_halve_le [of k w] max_halve_le [of k h] by (meson order_trans)

lemma chain_levels:
  "list_all (levelOk m w h) (fst (mipMapLoop i c m w h sz d []))"
proof (induction i c m w h sz d rule: chain_induct)
  case (step i c m w h sz d)
  let ?rest = "fst (mipMapLoop (i + 1) c m (drop_bit 1 w) (drop_bit 1 h) (drop_bit 2 sz)
                  (d - max sz m) [])"
  have rest: "list_all (levelOk m w h) ?rest"
    if "i < ucast c" "\<not> invalidDims w h" "\<not> d < max sz m"
       "\<not> (drop_bit 1 w < 1 \<and> drop_bit 1 h < 1)"
  proof -
    have "list_all (levelOk m (drop_bit 1 w) (drop_bit 1 h)) ?rest"
      using that by (rule step.IH)
    then show ?thesis
      unfolding list_all_iff using levelOk_halve [of m 1 w h] by blast
  qed
  show ?case
    apply (subst mipMapLoop_Nil)
    using rest levelOk_level [of m w h sz]
    by (simp del: One_nat_def)
qed

lemma chain_sorted:
  "sorted_wrt notLarger (fst (mipMapLoop i c m w h sz d []))"
proof (induction i c m w h sz d rule: chain_induct)
  case (step i c m w h sz d)
  have below: "notLarger (level w h sz m) x"
    if "x \<in> set (fst (mipMapLoop (i + 1) c m (drop_bit 1 w) (drop_bit 1 h) (drop_bit 2 sz)
                  (d - max sz m) []))" for x
  proof -
    from that chain_levels [of m "drop_bit 1 w" "drop_bit 1 h" "i + 1" c "drop_bit 2 sz" "d - max sz m"]
    have "levelOk m (drop_bit 1 w) (drop_bit 1 h) x" by (simp add: list_all_iff)
    then have "levelOk m w h x" by (rule levelOk_halve)
    then show ?thesis by (simp add: notLarger_def levelOk_def level_def)
  qed
  show ?case
    apply (subst mipMapLoop_Nil)
    using step below
    by (auto simp del: One_nat_def)
qed

lemma chain_budget:
  "mipMapLoop i c m w h sz d [] = (r, d', e) \<Longrightarrow>
   unat d' + sum_list (map (\<lambda>x. unat (mmSize x)) r) = unat d"
proof (induction i c m w h sz d arbitrary: r d' e rule: chain_induct)
  case (step i c m w h sz d)
  have sub: "unat (d - max sz m) + unat (max sz m) = unat d" if "\<not> d < max sz m"
    using that by (simp add: unat_sub word_le_nat_alt not_less)
  from step.prems show ?case
    apply (subst (asm) mipMapLoop_Nil)
    using step.IH sub
    by (auto simp del: One_nat_def split: if_splits simp: level_def apfst_def map_prod_def split: prod.splits)
qed

section \<open>Reading the header fields\<close>

lemma le16_roundtrip:
  "push_bit 8 (ucast (ucast (drop_bit 8 w) :: byte)) OR ucast (ucast w :: byte) = (w :: uint16)"
  by (rule bit_word_eqI) (auto simp add: bit_simps)

lemma le32_roundtrip:
  "push_bit 16 (ucast (push_bit 8 (ucast (ucast (drop_bit 24 d) :: byte)) OR ucast (ucast (drop_bit 16 d) :: byte) :: uint16))
     OR ucast (push_bit 8 (ucast (ucast (drop_bit 8 d) :: byte)) OR ucast (ucast d :: byte) :: uint16) = (d :: uint32)"
proof (rule bit_word_eqI)
  fix n :: nat
  assume "n < LENGTH(32)"
  then consider "n < 8" | "8 \<le> n" "n < 16" | "16 \<le> n" "n < 24" | "24 \<le> n" "n < 32"
    by fastforce
  then show "bit (push_bit 16 (ucast (push_bit 8 (ucast (ucast (drop_bit 24 d) :: byte)) OR ucast (ucast (drop_bit 16 d) :: byte) :: uint16))
     OR ucast (push_bit 8 (ucast (ucast (drop_bit 8 d) :: byte)) OR ucast (ucast d :: byte) :: uint16) :: uint32) n = bit d n"
    by cases (auto simp add: bit_simps)
qed

lemma readByte_at:
  "spos s < length (sdata s) \<Longrightarrow> readByte s = (sdata s ! spos s, s\<lparr>spos := Suc (spos s)\<rparr>)"
proof -
  assume "spos s < length (sdata s)"
  then have "drop (spos s) (sdata s) = sdata s ! spos s # drop (Suc (spos s)) (sdata s)"
    by (simp add: Cons_nth_drop_Suc)
  then show ?thesis by (simp add: readByte_def read_s_def)
qed

lemma readFields_headerBytes:
  "readFields \<lparr>sdata = headerBytes dataSize w16 h16 encoding mipMapCount @ rest, spos = 0, serr = e\<rparr> =
     ((dataSize, ucast w16, ucast h16, encoding, mipMapCount),
      \<lparr>sdata = headerBytes dataSize w16 h16 encoding mipMapCount @ rest, spos = 128, serr = e\<rparr>)"
  by (simp add: readFields_def readUint32LE_def readUint16LE_def readByte_at skip_s_def
        headerBytes_def le16_roundtrip le32_roundtrip)


lemma readFields_memStream:
  "readFields (memStream (headerBytes dataSize w16 h16 encoding mipMapCount @ rest)) =
     ((dataSize, ucast w16, ucast h16, encoding, mipMapCount),
      (memStream (headerBytes dataSize w16 h16 encoding mipMapCount @ rest))\<lparr>spos := 128\<rparr>)"
  by (simp add: memStream_def readFields_headerBytes)

lemma readFields_header:
  "readFields (memStream (headerBytes dataSize w16 h16 encoding mipMapCount)) =
     ((dataSize, ucast w16, ucast h16, encoding, mipMapCount),
      (memStream (headerBytes dataSize w16 h16 encoding mipMapCount))\<lparr>spos := 128\<rparr>)"
  using readFields_memStream [of dataSize w16 h16 encoding mipMapCount "[]"] by simp

lemma readHeader_known:
  assumes "readFields txb = ((dataSize, width, height, encoding, mipMapCount), txb')"
    and "encodingSizes encoding width height mipMapCount dataSize =
           Inr (co, al, f, fr, dt, minDataSize, mipMapSize)"
  shows "readHeader txb t =
     (None, txb',
      t\<lparr>mDataSize := dataSize, mCompressed := co, mHasAlpha := al, mFormat := f,
        mFormatRaw := fr, mDataType := dt,
        mMipMaps := mMipMaps t @
          fst (mipMapLoop 0 mipMapCount minDataSize width height mipMapSize dataSize [])\<rparr>)"
  using assms mipMapLoop_append [of 0 mipMapCount minDataSize width height mipMapSize dataSize
      "mMipMaps t" "[]"]
  by (simp add: readHeader_def apfst_def map_prod_def split: prod.splits)

lemma readHeader_unknown:
  assumes "readFields txb = ((dataSize, width, height, encoding, mipMapCount), txb')"
    and "encodingSizes encoding width height mipMapCount dataSize = Inl e"
  shows "readHeader txb t = (Some e, txb', t\<lparr>mDataSize := dataSize\<rparr>)"
  using assms by (simp add: readHeader_def)

section \<open>The chain of a 256 x 256 DXT1 image\<close>

lemma chain_256:
  "mipMapLoop 0 9 8 256 256 32768 65536 [] =
     ([level 256 256 32768 8, level 128 128 8192 8, level 64 64 2048 8, level 32 32 512 8,
       level 16 16 128 8, level 8 8 32 8, level 4 4 8 8, level 2 2 2 8, level 1 1 0 8],
      21832, BothBelowOne)"
  by (simp add: mipMapLoop_Nil invalidDims_def)

lemma encodingSizes_256:
  "encodingSizes 0x0A 256 256 9 65536 =
     Inr (True, False, kPixelFormatBGR, kPixelFormatDXT1, kPixelDataType8, 8, 32768)"
  by (simp add: encodingSizes_def kEncodingBGRA_def kEncodingDXT1_def)

text \<open>
  C1. A header with budget 65536, width 256, height 256, encoding 0x0A and
  mip map count 9 gives nine levels, of widths 256, 128, 64, 32, 16, 8, 4, 2
  and 1: width and height stay equal, so the break for invalid dimensions is
  not taken below 4, and the levels 2 x 2 and 1 x 1 follow with the minimum
  size 8. The nine levels take 43704 bytes of the budget and leave 21832.
\<close>

theorem readHeader_chain_256_dxt1:
  assumes "readFields txb = ((65536, 256, 256, 0x0A, 9), txb')"
  shows "fst (readHeader txb (TXB_new txb)) = None \<and>
         map dims (mMipMaps (snd (snd (readHeader txb (TXB_new txb))))) =
           [(256, 256, 32768), (128, 128, 8192), (64, 64, 2048), (32, 32, 512),
            (16, 16, 128), (8, 8, 32), (4, 4, 8), (2, 2, 8), (1, 1, 8)] \<and>
         sum_list (map (\<lambda>x. unat (mmSize x))
           (mMipMaps (snd (snd (readHeader txb (TXB_new txb)))))) = 43704 \<and>
         snd (mipMapLoop 0 9 8 256 256 32768 65536 []) = (65536 - 43704, BothBelowOne)"
proof -
  have "readHeader txb (TXB_new txb) =
     (None, txb',
      (TXB_new txb)\<lparr>mDataSize := 65536, mCompressed := True, mHasAlpha := False,
        mFormat := kPixelFormatBGR, mFormatRaw := kPixelFormatDXT1,
        mDataType := kPixelDataType8,
        mMipMaps := mMipMaps (TXB_new txb) @
          fst (mipMapLoop 0 9 8 256 256 32768 65536 [])\<rparr>)"
    using assms encodingSizes_256 by (rule readHeader_known)
  then show ?thesis
    by (simp add: chain_256 TXB_new_def level_def dims_def)
qed

theorem readHeader_chain_256_dxt1_witness:
  "readFields (memStream (headerBytes 65536 256 256 0x0A 9)) =
     ((65536, 256, 256, 0x0A, 9),
      (memStream (headerBytes 65536 256 256 0x0A 9))\<lparr>spos := 128\<rparr>) \<and>
   length (mMipMaps (snd (snd (readHeader (memStream (headerBytes 65536 256 256 0x0A 9))
     (TXB_new (memStream (headerBytes 65536 256 256 0x0A 9))))))) = 9"
proof -
  have fields: "readFields (memStream (headerBytes 65536 256 256 0x0A 9)) =
     ((65536, 256, 256, 0x0A, 9),
      (memStream (headerBytes 65536 256 256 0x0A 9))\<lparr>spos := 128\<rparr>)"
    using readFields_header [of 65536 256 256 "0x0A" 9] by simp
  have "length (map dims (mMipMaps (snd (snd (readHeader
          (memStream (headerBytes 65536 256 256 0x0A 9))
          (TXB_new (memStream (headerBytes 65536 256 256 0x0A 9)))))))) = 9"
    using readHeader_chain_256_dxt1 [OF fields] by simp
  with fields show ?thesis by simp
qed

text \<open>
  The same header against the seven levels and the 43688 bytes of the
  specification's scenario.
\<close>

theorem readHeader_chain_256_dxt1_not_seven:
  "length (mMipMaps (snd (snd (readHeader (memStream (headerBytes 65536 256 256 0x0A 9))
     (TXB_new (memStream (headerBytes 65536 256 256 0x0A 9))))))) \<noteq> 7 \<and>
   sum_list (map (\<lambda>x. unat (mmSize x))
     (mMipMaps (snd (snd (readHeader (memStream (headerBytes 65536 256 256 0x0A 9))
       (TXB_new (memStream (headerBytes 65536 256 256 0x0A 9))))))))
     \<noteq> 43688"
proof -
  have fields: "readFields (memStream (headerBytes 65536 256 256 0x0A 9)) =
     ((65536, 256, 256, 0x0A, 9),
      (memStream (headerBytes 65536 256 256 0x0A 9))\<lparr>spos := 128\<rparr>)"
    using readFields_header [of 65536 256 256 "0x0A" 9] by simp
  have rh: "readHeader (memStream (headerBytes 65536 256 256 0x0A 9))
       (TXB_new (memStream (headerBytes 65536 256 256 0x0A 9))) =
     (None, (memStream (headerBytes 65536 256 256 0x0A 9))\<lparr>spos := 128\<rparr>,
      (TXB_new (memStream (headerBytes 65536 256 256 0x0A 9)))
        \<lparr>mDataSize := 65536, mCompressed := True, mHasAlpha := False,
         mFormat := kPixelFormatBGR, mFormatRaw := kPixelFormatDXT1,
         mDataType := kPixelDataType8,
         mMipMaps := mMipMaps (TXB_new (memStream (headerBytes 65536 256 256 0x0A 9))) @
           fst (mipMapLoop 0 9 8 256 256 32768 65536 [])\<rparr>)"
    using fields encodingSizes_256 by (rule readHeader_known)
  show ?thesis
    unfolding rh by (simp add: chain_256 TXB_new_def level_def)
qed

section \<open>The sizes an encoding gives\<close>

lemma unat_ucast16: "unat (ucast (w :: uint16) :: uint32) = unat w"
proof -
  have "unat w < 2 ^ 16" using unsigned_less [of w, where 'a = nat] by simp
  then have "unat w < 2 ^ 32" by simp
  then show ?thesis by (simp add: unsigned_ucast_eq take_bit_nat_eq_self)
qed

lemma unat_dim_product:
  "unat (ucast (w16 :: uint16) * ucast (h16 :: uint16) :: uint32) = unat w16 * unat h16"
proof -
  have "unat w16 < 2 ^ 16" "unat h16 < 2 ^ 16"
    using unsigned_less [of w16, where 'a = nat] unsigned_less [of h16, where 'a = nat]
    by simp_all
  then have "unat w16 * unat h16 < 2 ^ 16 * 2 ^ 16"
    by (intro mult_strict_mono) simp_all
  then have "unat (ucast w16 :: uint32) * unat (ucast h16 :: uint32) < 2 ^ LENGTH(32)"
    by (simp add: unat_ucast16)
  then have "unat (ucast w16 * ucast h16 :: uint32) =
      unat (ucast w16 :: uint32) * unat (ucast h16 :: uint32)"
    by (simp only: unat_mult_lem)
  then show ?thesis by (simp add: unat_ucast16)
qed

text \<open>
  C8. For width and height as the header holds them (16 bit each), the three
  known encodings give: 0x04 the minimum size 4 and the first level size
  \<open>width * height * 4\<close> reduced modulo \<open>2 ^ 32\<close>, the product being taken in
  \<^verbatim>\<open>uint32\<close>; 0x0A the minimum size 8 and \<open>width * height div 2\<close>; 0x0C the
  minimum size 16 and \<open>width * height\<close>. The last two cannot overflow.
\<close>

theorem encodingSizes_pairs:
  fixes w16 h16 :: uint16
  shows "levelSizes (encodingSizes 0x04 (ucast w16) (ucast h16) mipMapCount dataSize) =
           Some (4, (unat w16 * unat h16 * 4) mod 2 ^ 32) \<and>
         levelSizes (encodingSizes 0x0A (ucast w16) (ucast h16) mipMapCount dataSize) =
           Some (8, unat w16 * unat h16 div 2) \<and>
         levelSizes (encodingSizes 0x0C (ucast w16) (ucast h16) mipMapCount dataSize) =
           Some (16, unat w16 * unat h16)"
proof -
  have bgra: "unat (ucast w16 * ucast h16 * 4 :: uint32) = (unat w16 * unat h16 * 4) mod 2 ^ 32"
    by (simp add: unat_word_ariths(2) [of "ucast w16 * ucast h16" 4] unat_dim_product)
  have dxt1: "unat (ucast w16 * ucast h16 div 2 :: uint32) = unat w16 * unat h16 div 2"
    by (simp add: unat_div unat_dim_product)
  show ?thesis
    by (simp add: levelSizes_def encodingSizes_def kEncodingBGRA_def kEncodingDXT1_def
          kEncodingDXT5_def bgra dxt1 unat_dim_product)
qed

text \<open>
  A raw BGRA header of 32768 x 32768: the first level size is 0, not
  \<open>32768 * 32768 * 4\<close>.
\<close>

theorem encodingSizes_bgra_wraps:
  "levelSizes (encodingSizes 0x04 (ucast (32768 :: uint16)) (ucast (32768 :: uint16)) 1 16) = Some (4, 0) \<and>
   unat (32768 :: uint16) * unat (32768 :: uint16) * 4 \<noteq> 0"
  by (simp add: levelSizes_def encodingSizes_def kEncodingBGRA_def)

section \<open>What readHeader leaves in the object\<close>

lemma known_encoding:
  "levelSizes (encodingSizes encoding width height mipMapCount dataSize) \<noteq> None
     \<longleftrightarrow> encoding = 0x04 \<or> encoding = 0x0A \<or> encoding = 0x0C"
  by (simp add: levelSizes_def encodingSizes_def kEncodingBGRA_def kEncodingDXT1_def
        kEncodingDXT5_def Exception_def)

lemma levelSizes_SomeD:
  assumes "levelSizes (encodingSizes encoding width height mipMapCount dataSize) = Some (m, b)"
  obtains co al f fr dt minDataSize mipMapSize where
    "encodingSizes encoding width height mipMapCount dataSize =
       Inr (co, al, f, fr, dt, minDataSize, mipMapSize)"
    "unat minDataSize = m" "unat mipMapSize = b"
  using assms by (auto simp add: levelSizes_def split: sum.splits)

lemma readHeader_chain:
  assumes "readFields txb = ((dataSize, width, height, encoding, mipMapCount), txb')"
    and "encodingSizes encoding width height mipMapCount dataSize =
           Inr (co, al, f, fr, dt, minDataSize, mipMapSize)"
  shows "fst (readHeader txb (TXB_new txb)) = None"
    and "fst (snd (readHeader txb (TXB_new txb))) = txb'"
    and "mMipMaps (snd (snd (readHeader txb (TXB_new txb)))) =
           fst (mipMapLoop 0 mipMapCount minDataSize width height mipMapSize dataSize [])"
    and "mDataSize (snd (snd (readHeader txb (TXB_new txb)))) = dataSize"
    and "mTxiData (snd (snd (readHeader txb (TXB_new txb)))) = None"
  by (simp_all add: readHeader_known [OF assms] TXB_new_def)

text \<open>
  C4. When \<^verbatim>\<open>readHeader\<close> has built a chain (the encoding is one of the three
  known ones, with minimum level size \<open>minLevelSize\<close>): every level has width
  and height at least 1 and a byte size of at least \<open>minLevelSize\<close>, there are
  at most \<open>mipMapCount\<close> levels, and no level is wider or higher than a level
  before it.
\<close>

theorem readHeader_chain_invariants:
  assumes "readFields txb = ((dataSize, width, height, encoding, mipMapCount), txb')"
    and "levelSizes (encodingSizes encoding width height mipMapCount dataSize) =
           Some (minLevelSize, baseLevelSize)"
  shows "fst (readHeader txb (TXB_new txb)) = None \<and>
         length (mMipMaps (snd (snd (readHeader txb (TXB_new txb))))) \<le> unat mipMapCount \<and>
         list_all (\<lambda>x. 1 \<le> unat (mmWidth x) \<and> 1 \<le> unat (mmHeight x) \<and>
                       minLevelSize \<le> unat (mmSize x))
           (mMipMaps (snd (snd (readHeader txb (TXB_new txb))))) \<and>
         sorted_wrt notLarger (mMipMaps (snd (snd (readHeader txb (TXB_new txb)))))"
proof -
  from assms(2) obtain co al f fr dt minDataSize mipMapSize where
    enc: "encodingSizes encoding width height mipMapCount dataSize =
       Inr (co, al, f, fr, dt, minDataSize, mipMapSize)"
    and m: "unat minDataSize = minLevelSize"
    by (rule levelSizes_SomeD)
  let ?chain = "fst (mipMapLoop 0 mipMapCount minDataSize width height mipMapSize dataSize [])"
  have len: "length ?chain \<le> unat mipMapCount"
  proof -
    have "unat mipMapCount < 2 ^ 8" using unsigned_less [of mipMapCount, where 'a = nat] by simp
    then have "unat (ucast mipMapCount :: uint32) = unat mipMapCount"
      by (simp add: unsigned_ucast_eq take_bit_nat_eq_self)
    with chain_length [of 0 mipMapCount minDataSize width height mipMapSize dataSize]
    show ?thesis by simp
  qed
  have ok: "list_all (levelOk minDataSize width height) ?chain"
    by (rule chain_levels)
  have "list_all (\<lambda>x. 1 \<le> unat (mmWidth x) \<and> 1 \<le> unat (mmHeight x) \<and>
                       minLevelSize \<le> unat (mmSize x)) ?chain"
    using ok m unfolding list_all_iff levelOk_def word_le_nat_alt by auto
  moreover have "sorted_wrt notLarger ?chain" by (rule chain_sorted)
  ultimately show ?thesis
    using len by (simp add: readHeader_chain [OF assms(1) enc])
qed

theorem readHeader_chain_invariants_witness:
  "readFields (memStream (headerBytes 16 4 4 0x0A 3)) =
     ((16, 4, 4, 0x0A, 3), (memStream (headerBytes 16 4 4 0x0A 3))\<lparr>spos := 128\<rparr>) \<and>
   levelSizes (encodingSizes 0x0A 4 4 3 16) = Some (8, 8) \<and>
   map dims (mMipMaps (snd (snd (readHeader (memStream (headerBytes 16 4 4 0x0A 3))
     (TXB_new (memStream (headerBytes 16 4 4 0x0A 3))))))) = [(4, 4, 8), (2, 2, 8)] \<and>
   sorted_wrt notLarger (mMipMaps (snd (snd (readHeader (memStream (headerBytes 16 4 4 0x0A 3))
     (TXB_new (memStream (headerBytes 16 4 4 0x0A 3)))))))"
proof -
  have fields: "readFields (memStream (headerBytes 16 4 4 0x0A 3)) =
     ((16, 4, 4, 0x0A, 3), (memStream (headerBytes 16 4 4 0x0A 3))\<lparr>spos := 128\<rparr>)"
    using readFields_header [of 16 4 4 "0x0A" 3] by simp
  have enc: "encodingSizes 0x0A 4 4 3 16 =
     Inr (True, False, kPixelFormatBGR, kPixelFormatDXT1, kPixelDataType8, 8, 8)"
    by (simp add: encodingSizes_def kEncodingBGRA_def kEncodingDXT1_def)
  have sizes: "levelSizes (encodingSizes 0x0A 4 4 3 16) = Some (8, 8)"
    by (simp add: enc levelSizes_def)
  have chain: "map dims (mMipMaps (snd (snd (readHeader (memStream (headerBytes 16 4 4 0x0A 3))
     (TXB_new (memStream (headerBytes 16 4 4 0x0A 3))))))) = [(4, 4, 8), (2, 2, 8)]"
    unfolding readHeader_chain(3) [OF fields enc]
    by (simp add: mipMapLoop_Nil invalidDims_def level_def dims_def)
  from readHeader_chain_invariants [OF fields sizes] fields sizes chain
  show ?thesis by simp
qed

section \<open>Unknown encodings\<close>

text \<open>
  C5. For every encoding byte other than 0x04, 0x0A and 0x0C \<^verbatim>\<open>readHeader\<close>
  throws, having stored only the data size: for 0x09 the exception
  "Unsupported TXB encoding 0x09", for any other byte the exception "Unknown
  TXB encoding" with the byte, the width, the height, the mip map count and
  the data size as its arguments. The two exceptions differ.
\<close>

theorem readHeader_unsupported_encoding:
  assumes "readFields txb = ((dataSize, width, height, encoding, mipMapCount), txb')"
    and "encoding \<noteq> 0x04" "encoding \<noteq> 0x0A" "encoding \<noteq> 0x0C"
  shows "readHeader txb t =
           (Some (if encoding = 0x09
                  then Exception ''Unsupported TXB encoding 0x09'' []
                  else Exception ''Unknown TXB encoding 0x%02X (%dx%d, %d, %d)''
                         [unat encoding, unat width, unat height, unat mipMapCount,
                          unat dataSize]),
            txb', t\<lparr>mDataSize := dataSize\<rparr>) \<and>
         Exception ''Unsupported TXB encoding 0x09'' [] \<noteq>
           Exception ''Unknown TXB encoding 0x%02X (%dx%d, %d, %d)''
             [unat encoding, unat width, unat height, unat mipMapCount, unat dataSize]"
proof -
  have "encodingSizes encoding width height mipMapCount dataSize =
      Inl (if encoding = 0x09
           then Exception ''Unsupported TXB encoding 0x09'' []
           else Exception ''Unknown TXB encoding 0x%02X (%dx%d, %d, %d)''
                  [unat encoding, unat width, unat height, unat mipMapCount, unat dataSize])"
    using assms(2-4)
    by (simp add: encodingSizes_def kEncodingBGRA_def kEncodingDXT1_def kEncodingDXT5_def)
  with assms(1) have "readHeader txb t =
           (Some (if encoding = 0x09
                  then Exception ''Unsupported TXB encoding 0x09'' []
                  else Exception ''Unknown TXB encoding 0x%02X (%dx%d, %d, %d)''
                         [unat encoding, unat width, unat height, unat mipMapCount,
                          unat dataSize]),
            txb', t\<lparr>mDataSize := dataSize\<rparr>)"
    by (rule readHeader_unknown)
  then show ?thesis by (simp add: Exception_def)
qed

theorem readHeader_unsupported_encoding_witness:
  "readFields (memStream (headerBytes 16 4 4 0x09 3)) =
     ((16, 4, 4, 0x09, 3), (memStream (headerBytes 16 4 4 0x09 3))\<lparr>spos := 128\<rparr>) \<and>
   readFields (memStream (headerBytes 16 4 4 0xFF 3)) =
     ((16, 4, 4, 0xFF, 3), (memStream (headerBytes 16 4 4 0xFF 3))\<lparr>spos := 128\<rparr>) \<and>
   fst (readHeader (memStream (headerBytes 16 4 4 0x09 3))
          (TXB_new (memStream (headerBytes 16 4 4 0x09 3)))) =
     Some [Message ''Unsupported TXB encoding 0x09'' []] \<and>
   fst (readHeader (memStream (headerBytes 16 4 4 0xFF 3))
          (TXB_new (memStream (headerBytes 16 4 4 0xFF 3)))) =
     Some [Message ''Unknown TXB encoding 0x%02X (%dx%d, %d, %d)'' [255, 4, 4, 3, 16]]"
proof -
  have f9: "readFields (memStream (headerBytes 16 4 4 0x09 3)) =
     ((16, 4, 4, 0x09, 3), (memStream (headerBytes 16 4 4 0x09 3))\<lparr>spos := 128\<rparr>)"
    using readFields_header [of 16 4 4 "0x09" 3] by simp
  have ff: "readFields (memStream (headerBytes 16 4 4 0xFF 3)) =
     ((16, 4, 4, 0xFF, 3), (memStream (headerBytes 16 4 4 0xFF 3))\<lparr>spos := 128\<rparr>)"
    using readFields_header [of 16 4 4 "0xFF" 3] by simp
  have "fst (readHeader (memStream (headerBytes 16 4 4 0x09 3))
          (TXB_new (memStream (headerBytes 16 4 4 0x09 3)))) =
     Some [Message ''Unsupported TXB encoding 0x09'' []]"
    using readHeader_unsupported_encoding [OF f9,
        of "TXB_new (memStream (headerBytes 16 4 4 0x09 3))"]
    by (simp add: Exception_def)
  moreover have "fst (readHeader (memStream (headerBytes 16 4 4 0xFF 3))
          (TXB_new (memStream (headerBytes 16 4 4 0xFF 3)))) =
     Some [Message ''Unknown TXB encoding 0x%02X (%dx%d, %d, %d)'' [255, 4, 4, 3, 16]]"
    using readHeader_unsupported_encoding [OF ff,
        of "TXB_new (memStream (headerBytes 16 4 4 0xFF 3))"]
    by (simp add: Exception_def)
  ultimately show ?thesis using f9 ff by simp
qed

section \<open>The budget check\<close>

lemma unat_count: "unat (ucast (c :: byte) :: uint32) = unat c"
proof -
  have "unat c < 2 ^ 8" using unsigned_less [of c, where 'a = nat] by simp
  then have "unat c < 2 ^ 32" by simp
  then show ?thesis by (simp add: unsigned_ucast_eq take_bit_nat_eq_self)
qed

lemma readHeader_no_exception:
  assumes "readFields txb = ((dataSize, width, height, encoding, mipMapCount), txb')"
  shows "fst (readHeader txb t) = None \<longleftrightarrow>
           encoding = 0x04 \<or> encoding = 0x0A \<or> encoding = 0x0C"
  using assms
  by (simp add: readHeader_def encodingSizes_def kEncodingBGRA_def kEncodingDXT1_def
        kEncodingDXT5_def split: prod.splits)

text \<open>
  C6. In an iteration that the loop enters and that is past the check of the
  dimensions: if the remaining \<open>dataSize\<close> is smaller than the size of the
  level, the loop ends there, with the vector and \<open>dataSize\<close> as they were;
  otherwise the size is taken off \<open>dataSize\<close> (without wrapping) and the level
  is appended, and the loop goes on from there or ends because both
  dimensions are below 1. Whichever way the loop ends, \<^verbatim>\<open>readHeader\<close> throws
  nothing for a known encoding.
\<close>

theorem budget_check_is_silent:
  assumes "readFields txb = ((dataSize0, width0, height0, encoding, mipMapCount), txb')"
    and "i < ucast mipMapCount"
    and "\<not> ((width < 4 \<or> height < 4) \<and> width \<noteq> height)"
  shows "(dataSize < max mipMapSize minDataSize \<longrightarrow>
            mipMapLoop i mipMapCount minDataSize width height mipMapSize dataSize mipMaps =
              (mipMaps, dataSize, WouldntFit)) \<and>
         (\<not> dataSize < max mipMapSize minDataSize \<longrightarrow>
            unat (dataSize - max mipMapSize minDataSize) =
              unat dataSize - unat (max mipMapSize minDataSize) \<and>
            mipMapLoop i mipMapCount minDataSize width height mipMapSize dataSize mipMaps =
              (if drop_bit 1 width < 1 \<and> drop_bit 1 height < 1
               then (mipMaps @ [level width height mipMapSize minDataSize],
                     dataSize - max mipMapSize minDataSize, BothBelowOne)
               else mipMapLoop (i + 1) mipMapCount minDataSize (drop_bit 1 width)
                      (drop_bit 1 height) (drop_bit 2 mipMapSize)
                      (dataSize - max mipMapSize minDataSize)
                      (mipMaps @ [level width height mipMapSize minDataSize]))) \<and>
         (encoding = 0x04 \<or> encoding = 0x0A \<or> encoding = 0x0C \<longrightarrow>
            fst (readHeader txb t) = None)"
proof -
  have valid: "\<not> invalidDims width height"
    using assms(3) by (simp add: invalidDims_def)
  have sub: "unat (dataSize - max mipMapSize minDataSize) =
      unat dataSize - unat (max mipMapSize minDataSize)"
    if "\<not> dataSize < max mipMapSize minDataSize"
    using that by (simp add: unat_sub not_less)
  show ?thesis
    using assms(2) valid sub readHeader_no_exception [OF assms(1), of t]
    by (subst (1 2) mipMapLoop_unfold) (simp del: One_nat_def)
qed

theorem budget_check_is_silent_witness:
  "readFields (memStream (headerBytes 12 4 4 0x0A 3)) =
     ((12, 4, 4, 0x0A, 3), (memStream (headerBytes 12 4 4 0x0A 3))\<lparr>spos := 128\<rparr>) \<and>
   (0 :: uint32) < ucast (3 :: byte) \<and>
   \<not> (((4 :: uint32) < 4 \<or> (4 :: uint32) < 4) \<and> (4 :: uint32) \<noteq> 4) \<and>
   \<not> (12 :: uint32) < max 8 8 \<and>
   mipMapLoop 0 3 8 4 4 8 12 [] = mipMapLoop 1 3 8 2 2 2 4 [level 4 4 8 8] \<and>
   (1 :: uint32) < ucast (3 :: byte) \<and>
   \<not> (((2 :: uint32) < 4 \<or> (2 :: uint32) < 4) \<and> (2 :: uint32) \<noteq> 2) \<and>
   (4 :: uint32) < max 2 8 \<and>
   mipMapLoop 1 3 8 2 2 2 4 [level 4 4 8 8] = ([level 4 4 8 8], 4, WouldntFit) \<and>
   fst (readHeader (memStream (headerBytes 12 4 4 0x0A 3))
          (TXB_new (memStream (headerBytes 12 4 4 0x0A 3)))) = None"
proof -
  have fields: "readFields (memStream (headerBytes 12 4 4 0x0A 3)) =
     ((12, 4, 4, 0x0A, 3), (memStream (headerBytes 12 4 4 0x0A 3))\<lparr>spos := 128\<rparr>)"
    using readFields_header [of 12 4 4 "0x0A" 3] by simp
  have i0: "(0 :: uint32) < ucast (3 :: byte)" and i1: "(1 :: uint32) < ucast (3 :: byte)"
    by simp_all
  have d0: "\<not> (((4 :: uint32) < 4 \<or> (4 :: uint32) < 4) \<and> (4 :: uint32) \<noteq> 4)"
    and d1: "\<not> (((2 :: uint32) < 4 \<or> (2 :: uint32) < 4) \<and> (2 :: uint32) \<noteq> 2)"
    by simp_all
  have first: "mipMapLoop 0 3 8 4 4 8 12 [] = mipMapLoop 1 3 8 2 2 2 4 [level 4 4 8 8]"
    and quiet: "fst (readHeader (memStream (headerBytes 12 4 4 0x0A 3))
          (TXB_new (memStream (headerBytes 12 4 4 0x0A 3)))) = None"
    using budget_check_is_silent [OF fields i0 d0, of 12 8 8 "[]"
        "TXB_new (memStream (headerBytes 12 4 4 0x0A 3))"]
    by simp_all
  have second: "mipMapLoop 1 3 8 2 2 2 4 [level 4 4 8 8] = ([level 4 4 8 8], 4, WouldntFit)"
    using budget_check_is_silent [OF fields i1 d1, of 4 2 8 "[level 4 4 8 8]"
        "TXB_new (memStream (headerBytes 12 4 4 0x0A 3))"]
    by simp
  show ?thesis
    using fields i0 i1 d0 d1 first second quiet by simp
qed

section \<open>Length of the chain\<close>

lemma readHeader_chain_any:
  assumes "readFields txb = ((dataSize, width, height, encoding, mipMapCount), txb')"
  shows "length (mMipMaps (snd (snd (readHeader txb (TXB_new txb))))) \<le> unat mipMapCount"
proof (cases "encodingSizes encoding width height mipMapCount dataSize")
  case (Inl e)
  with assms show ?thesis by (simp add: readHeader_unknown TXB_new_def)
next
  case (Inr r)
  then obtain co al f fr dt minDataSize mipMapSize where
    enc: "encodingSizes encoding width height mipMapCount dataSize =
       Inr (co, al, f, fr, dt, minDataSize, mipMapSize)"
    by (cases r) auto
  show ?thesis
    using chain_length [of 0 mipMapCount minDataSize width height mipMapSize dataSize]
    by (simp add: readHeader_chain(3) [OF assms enc] unat_count)
qed

lemma chain_1x1:
  assumes "0 < mipMapCount" and "\<not> dataSize < max mipMapSize minDataSize"
  shows "mipMapLoop 0 mipMapCount minDataSize 1 1 mipMapSize dataSize [] =
     ([level 1 1 mipMapSize minDataSize], dataSize - max mipMapSize minDataSize, BothBelowOne)"
proof -
  have "unat (0 :: uint32) < unat (ucast mipMapCount :: uint32)"
    using assms(1) by (simp add: unat_count word_less_nat_alt)
  then have "(0 :: uint32) < ucast mipMapCount" by (simp only: word_less_nat_alt)
  then show ?thesis
    using assms(2) by (subst mipMapLoop_Nil) (simp add: invalidDims_def)
qed

text \<open>
  C7. The loop is a total function (its termination is proved with its
  definition), and for every header, whatever the width, the height and the
  sizes, the chain has at most \<open>mipMapCount\<close> levels. For width 1 and height
  1, a known encoding, a count of at least 1 and a budget of at least the
  minimum level size, the chain is the single level 1 x 1 of that size.
\<close>

theorem chain_terminates_within_count:
  assumes "readFields txb = ((dataSize, width, height, encoding, mipMapCount), txb')"
  shows "length (fst (mipMapLoop 0 mipMapCount minDataSize width height mipMapSize dataSize []))
           \<le> unat mipMapCount \<and>
         length (mMipMaps (snd (snd (readHeader txb (TXB_new txb))))) \<le> unat mipMapCount \<and>
         (width = 1 \<and> height = 1 \<and> 1 \<le> unat mipMapCount \<and>
          levelSizes (encodingSizes encoding width height mipMapCount dataSize) =
            Some (minLevelSize, baseLevelSize) \<and>
          minLevelSize \<le> unat dataSize \<longrightarrow>
            map dims (mMipMaps (snd (snd (readHeader txb (TXB_new txb))))) =
              [(1, 1, minLevelSize)])"
proof -
  have a: "length (fst (mipMapLoop 0 mipMapCount minDataSize width height mipMapSize dataSize []))
           \<le> unat mipMapCount"
    using chain_length [of 0 mipMapCount minDataSize width height mipMapSize dataSize]
    by (simp add: unat_count)
  have b: "length (mMipMaps (snd (snd (readHeader txb (TXB_new txb))))) \<le> unat mipMapCount"
    using assms by (rule readHeader_chain_any)
  have c: "map dims (mMipMaps (snd (snd (readHeader txb (TXB_new txb))))) =
              [(1, 1, minLevelSize)]"
    if one: "width = 1" "height = 1" and cnt: "1 \<le> unat mipMapCount"
      and sizes: "levelSizes (encodingSizes encoding width height mipMapCount dataSize) =
            Some (minLevelSize, baseLevelSize)"
      and fits: "minLevelSize \<le> unat dataSize"
  proof -
    from sizes obtain co al f fr dt m sz where
      enc: "encodingSizes encoding width height mipMapCount dataSize =
         Inr (co, al, f, fr, dt, m, sz)"
      and m: "unat m = minLevelSize"
      by (rule levelSizes_SomeD)
    have small: "max sz m = m"
      using enc one
      by (auto simp add: encodingSizes_def kEncodingBGRA_def kEncodingDXT1_def
            kEncodingDXT5_def split: if_splits)
    have pos: "0 < mipMapCount"
      using cnt by (simp add: word_less_nat_alt)
    have fit: "\<not> dataSize < max sz m"
      using fits m small by (simp add: word_less_nat_alt)
    have "mMipMaps (snd (snd (readHeader txb (TXB_new txb)))) = [level 1 1 sz m]"
      using chain_1x1 [OF pos fit] one
      by (simp add: readHeader_chain(3) [OF assms enc])
    then show ?thesis
      using small m by (simp add: dims_def level_def)
  qed
  from a b c show ?thesis by blast
qed

theorem chain_terminates_within_count_witness:
  "readFields (memStream (headerBytes 100 1 1 0x0C 9)) =
     ((100, 1, 1, 0x0C, 9), (memStream (headerBytes 100 1 1 0x0C 9))\<lparr>spos := 128\<rparr>) \<and>
   levelSizes (encodingSizes 0x0C 1 1 9 100) = Some (16, 1) \<and>
   map dims (mMipMaps (snd (snd (readHeader (memStream (headerBytes 100 1 1 0x0C 9))
     (TXB_new (memStream (headerBytes 100 1 1 0x0C 9))))))) = [(1, 1, 16)]"
proof -
  have fields: "readFields (memStream (headerBytes 100 1 1 0x0C 9)) =
     ((100, 1, 1, 0x0C, 9), (memStream (headerBytes 100 1 1 0x0C 9))\<lparr>spos := 128\<rparr>)"
    using readFields_header [of 100 1 1 "0x0C" 9] by simp
  have sizes: "levelSizes (encodingSizes 0x0C 1 1 9 100) = Some (16, 1)"
    by (simp add: levelSizes_def encodingSizes_def kEncodingBGRA_def kEncodingDXT1_def
          kEncodingDXT5_def)
  from chain_terminates_within_count [OF fields, of _ _ 16 1] sizes fields
  show ?thesis by simp
qed

section \<open>Square and non-square images\<close>





text \<open>
  C10. For a header with width or height below 4, width and height different
  and a mip map count of at least 1, the loop leaves through the break for
  invalid dimensions in its first iteration and appends nothing. With a known
  encoding \<^verbatim>\<open>readHeader\<close> then returns without an exception and with an empty
  vector, and \<^verbatim>\<open>readData\<close> on that vector returns without an exception and
  leaves the stream where the header ended.
\<close>

theorem nonsquare_small_header_empty_chain:
  assumes "readFields txb = ((dataSize, width, height, encoding, mipMapCount), txb')"
    and "width < 4 \<or> height < 4" and "width \<noteq> height" and "1 \<le> unat mipMapCount"
  shows "mipMapLoop 0 mipMapCount minDataSize width height mipMapSize dataSize [] =
           ([], dataSize, InvalidDimensions) \<and>
         (encoding = 0x04 \<or> encoding = 0x0A \<or> encoding = 0x0C \<longrightarrow>
            fst (readHeader txb (TXB_new txb)) = None \<and>
            fst (snd (readHeader txb (TXB_new txb))) = txb' \<and>
            mMipMaps (snd (snd (readHeader txb (TXB_new txb)))) = [] \<and>
            readData txb' (snd (snd (readHeader txb (TXB_new txb)))) =
              (None, txb', snd (snd (readHeader txb (TXB_new txb)))))"
proof -
  have "unat (0 :: uint32) < unat (ucast mipMapCount :: uint32)"
    using assms(4) by (simp add: unat_count)
  then have first: "(0 :: uint32) < ucast mipMapCount" by (simp only: word_less_nat_alt)
  have loop: "mipMapLoop 0 mipMapCount m width height sz dataSize [] =
           ([], dataSize, InvalidDimensions)" for m sz
    using first assms(2,3) by (subst mipMapLoop_Nil) (simp add: invalidDims_def)
  have rest: "fst (readHeader txb (TXB_new txb)) = None \<and>
            fst (snd (readHeader txb (TXB_new txb))) = txb' \<and>
            mMipMaps (snd (snd (readHeader txb (TXB_new txb)))) = [] \<and>
            readData txb' (snd (snd (readHeader txb (TXB_new txb)))) =
              (None, txb', snd (snd (readHeader txb (TXB_new txb))))"
    if "encoding = 0x04 \<or> encoding = 0x0A \<or> encoding = 0x0C"
  proof -
    from that have "levelSizes (encodingSizes encoding width height mipMapCount dataSize) \<noteq> None"
      by (simp only: known_encoding)
    then obtain m' b' where
      "levelSizes (encodingSizes encoding width height mipMapCount dataSize) = Some (m', b')"
      by fastforce
    then obtain co al f fr dt m sz where
      enc: "encodingSizes encoding width height mipMapCount dataSize =
         Inr (co, al, f, fr, dt, m, sz)"
      by (rule levelSizes_SomeD)
    have empty: "mMipMaps (snd (snd (readHeader txb (TXB_new txb)))) = []"
      by (simp add: readHeader_chain(3) [OF assms(1) enc] loop)
    then have "readData txb' (snd (snd (readHeader txb (TXB_new txb)))) =
              (None, txb', snd (snd (readHeader txb (TXB_new txb))))"
      by (simp add: readData_def)
    with empty show ?thesis
      by (simp add: readHeader_chain(1,2) [OF assms(1) enc])
  qed
  from loop rest show ?thesis by blast
qed

theorem nonsquare_small_header_empty_chain_witness:
  "readFields (memStream (headerBytes 64 2 8 0x04 4 @ replicate 64 7)) =
     ((64, 2, 8, 0x04, 4), (memStream (headerBytes 64 2 8 0x04 4 @ replicate 64 7))\<lparr>spos := 128\<rparr>) \<and>
   ((2 :: uint32) < 4 \<or> (8 :: uint32) < 4) \<and> (2 :: uint32) \<noteq> 8 \<and> 1 \<le> unat (4 :: byte) \<and>
   mMipMaps (snd (snd (readHeader (memStream (headerBytes 64 2 8 0x04 4 @ replicate 64 7))
     (TXB_new (memStream (headerBytes 64 2 8 0x04 4 @ replicate 64 7)))))) = [] \<and>
   fst (readData ((memStream (headerBytes 64 2 8 0x04 4 @ replicate 64 7))\<lparr>spos := 128\<rparr>)
     (snd (snd (readHeader (memStream (headerBytes 64 2 8 0x04 4 @ replicate 64 7))
       (TXB_new (memStream (headerBytes 64 2 8 0x04 4 @ replicate 64 7))))))) = None \<and>
   spos (fst (snd (readData ((memStream (headerBytes 64 2 8 0x04 4 @ replicate 64 7))\<lparr>spos := 128\<rparr>)
     (snd (snd (readHeader (memStream (headerBytes 64 2 8 0x04 4 @ replicate 64 7))
       (TXB_new (memStream (headerBytes 64 2 8 0x04 4 @ replicate 64 7))))))))) = 128"
proof -
  have fields: "readFields (memStream (headerBytes 64 2 8 0x04 4 @ replicate 64 7)) =
     ((64, 2, 8, 0x04, 4), (memStream (headerBytes 64 2 8 0x04 4 @ replicate 64 7))\<lparr>spos := 128\<rparr>)"
    using readFields_memStream [of 64 2 8 "0x04" 4 "replicate 64 7"] by simp
  have hyps: "(2 :: uint32) < 4 \<or> (8 :: uint32) < 4" "(2 :: uint32) \<noteq> 8" "1 \<le> unat (4 :: byte)"
    by simp_all
  from nonsquare_small_header_empty_chain [OF fields hyps] fields hyps
  show ?thesis by simp
qed

section \<open>Reading the pixel data and the TXI data\<close>

lemma read_new_props:
  assumes "read_new s n = (buf, k, s')"
  shows "length buf = n" and "sdata s' = sdata s" and "k \<le> n"
    and "serr s' = serr s"
  using assms by (auto simp add: read_new_def read_s_def Let_def)

lemma readByte_sdata: "sdata (snd (readByte s)) = sdata s"
  by (simp add: readByte_def read_s_def Let_def split: list.splits)

lemma readUint16LE_sdata: "sdata (snd (readUint16LE s)) = sdata s"
proof -
  obtain a s1 where r1: "readByte s = (a, s1)" by (cases "readByte s")
  obtain b s2 where r2: "readByte s1 = (b, s2)" by (cases "readByte s1")
  have "sdata s1 = sdata s" using readByte_sdata [of s] r1 by simp
  moreover have "sdata s2 = sdata s1" using readByte_sdata [of s1] r2 by simp
  ultimately show ?thesis by (simp add: readUint16LE_def r1 r2)
qed

lemma readUint32LE_sdata: "sdata (snd (readUint32LE s)) = sdata s"
proof -
  obtain a s1 where r1: "readUint16LE s = (a, s1)" by (cases "readUint16LE s")
  obtain b s2 where r2: "readUint16LE s1 = (b, s2)" by (cases "readUint16LE s1")
  have "sdata s1 = sdata s" using readUint16LE_sdata [of s] r1 by simp
  moreover have "sdata s2 = sdata s1" using readUint16LE_sdata [of s1] r2 by simp
  ultimately show ?thesis by (simp add: readUint32LE_def r1 r2)
qed

lemma skip_s_sdata: "sdata (skip_s s n) = sdata s"
  by (simp add: skip_s_def)

lemma readFields_sdata: "sdata (snd (readFields s)) = sdata s"
proof -
  obtain d s1 where r1: "readUint32LE s = (d, s1)" by (cases "readUint32LE s")
  obtain w s3 where r3: "readUint16LE (skip_s s1 4) = (w, s3)" by (cases "readUint16LE (skip_s s1 4)")
  obtain h s4 where r4: "readUint16LE s3 = (h, s4)" by (cases "readUint16LE s3")
  obtain e s5 where r5: "readByte s4 = (e, s5)" by (cases "readByte s4")
  obtain c s6 where r6: "readByte s5 = (c, s6)" by (cases "readByte s5")
  have "sdata s1 = sdata s" using readUint32LE_sdata [of s] r1 by simp
  moreover have "sdata s3 = sdata s1"
    using readUint16LE_sdata [of "skip_s s1 4"] r3 by (simp add: skip_s_sdata)
  moreover have "sdata s4 = sdata s3" using readUint16LE_sdata [of s3] r4 by simp
  moreover have "sdata s5 = sdata s4" using readByte_sdata [of s4] r5 by simp
  moreover have "sdata s6 = sdata s5" using readByte_sdata [of s5] r6 by simp
  ultimately show ?thesis
    by (simp add: readFields_def r1 r3 r4 r5 r6 skip_s_sdata)
qed

lemma readData_vec_props:
  assumes "readData_vec s ms = (r, s', ms')"
  shows "sdata s' = sdata s \<and> map dims ms' = map dims ms \<and>
         (r = None \<longrightarrow> list_all holdsBuffer ms') \<and>
         (r \<noteq> None \<longrightarrow> list_ex holdsBuffer ms')"
  using assms
proof (induction ms arbitrary: s r s' ms')
  case Nil
  then show ?case by simp
next
  case (Cons x xs)
  obtain buf k s1 where rd: "read_new s (unat (mmSize x)) = (buf, k, s1)"
    by (cases "read_new s (unat (mmSize x))")
  note p = read_new_props [OF rd]
  show ?case
  proof (cases "k = unat (mmSize x)")
    case False
    with Cons.prems rd p show ?thesis
      by (auto simp add: dims_def holdsBuffer_def)
  next
    case True
    obtain r2 s2 ms2 where rec: "readData_vec s1 xs = (r2, s2, ms2)"
      by (cases "readData_vec s1 xs")
    from Cons.IH [OF rec] Cons.prems rd p True rec show ?thesis
      by (auto simp add: dims_def holdsBuffer_def)
  qed
qed


lemma readData_props:
  assumes "readData s t = (r, s', t')"
  shows "sdata s' = sdata s" and "map dims (mMipMaps t') = map dims (mMipMaps t)"
    and "r = None \<Longrightarrow> list_all holdsBuffer (mMipMaps t')"
    and "r \<noteq> None \<Longrightarrow> list_ex holdsBuffer (mMipMaps t')"
    and "mDataSize t' = mDataSize t" and "mTxiData t' = mTxiData t"
    and "mTxiDataSize t' = mTxiDataSize t"
proof -
  obtain ms' where v: "readData_vec s (mMipMaps t) = (r, s', ms')"
    and t': "t' = t\<lparr>mMipMaps := ms'\<rparr>"
    using assms by (auto simp add: readData_def split: prod.splits)
  note p = readData_vec_props [OF v]
  show "sdata s' = sdata s" and "map dims (mMipMaps t') = map dims (mMipMaps t)"
    and "mDataSize t' = mDataSize t" and "mTxiData t' = mTxiData t"
    and "mTxiDataSize t' = mTxiDataSize t"
    using p t' by simp_all
  show "list_all holdsBuffer (mMipMaps t')" if "r = None" using p t' that by simp
  show "list_ex holdsBuffer (mMipMaps t')" if "r \<noteq> None" using p t' that by simp
qed

lemma size_MemoryReadStream:
  "length buf = unat n \<Longrightarrow> size_s (MemoryReadStream buf n) = n"
  by (simp add: size_s_def MemoryReadStream_def)

lemma readTXIData_props:
  assumes "readTXIData s t = (r, s', t')"
  shows "mTxiDataSize t' = size_s s - pos_s s" and "mMipMaps t' = mMipMaps t"
    and "sdata s' = sdata s"
    and "mTxiData t = None \<Longrightarrow>
           (case getTXI t' of
              None \<Rightarrow> mTxiDataSize t' = 0
            | Some g \<Rightarrow> mTxiDataSize t' \<noteq> 0 \<and> size_s g = mTxiDataSize t' \<and> sdata g \<noteq> [])"
proof -
  let ?n = "size_s s - pos_s s"
  obtain buf k s1 where rd: "read_new s (unat ?n) = (buf, k, s1)"
    by (cases "read_new s (unat ?n)")
  note p = read_new_props [OF rd]
  have len: "length buf = unat ?n" by (rule p(1))
  show "mTxiDataSize t' = size_s s - pos_s s" and "mMipMaps t' = mMipMaps t"
    and "sdata s' = sdata s"
    using assms rd p by (auto simp add: readTXIData_def Let_def split: if_splits)
  show "case getTXI t' of
              None \<Rightarrow> mTxiDataSize t' = 0
            | Some g \<Rightarrow> mTxiDataSize t' \<noteq> 0 \<and> size_s g = mTxiDataSize t' \<and> sdata g \<noteq> []"
    if "mTxiData t = None"
  proof (cases "?n = 0")
    case True
    with assms that show ?thesis
      by (auto simp add: readTXIData_def getTXI_def)
  next
    case False
    then have "unat ?n \<noteq> 0" by (simp add: unat_eq_0)
    with len have "take (unat ?n) buf \<noteq> []" by auto
    with assms rd False size_MemoryReadStream [OF len] show ?thesis
      by (auto simp add: readTXIData_def getTXI_def Let_def MemoryReadStream_def
            split: if_splits)
  qed
qed

section \<open>load\<close>

lemma readHeader_ok:
  assumes fields: "readFields txb = ((dataSize, width, height, encoding, mipMapCount), txb')"
    and hdr: "fst (readHeader txb (TXB_new txb)) = None"
  shows "readHeader txb (TXB_new txb) = (None, txb', snd (snd (readHeader txb (TXB_new txb))))"
    and "mDataSize (snd (snd (readHeader txb (TXB_new txb)))) = dataSize"
    and "mTxiData (snd (snd (readHeader txb (TXB_new txb)))) = None"
proof -
  from hdr have "levelSizes (encodingSizes encoding width height mipMapCount dataSize) \<noteq> None"
    by (simp only: known_encoding readHeader_no_exception [OF fields])
  then obtain m b where
    "levelSizes (encodingSizes encoding width height mipMapCount dataSize) = Some (m, b)"
    by fastforce
  then obtain co al f fr dt minDataSize mipMapSize where
    enc: "encodingSizes encoding width height mipMapCount dataSize =
       Inr (co, al, f, fr, dt, minDataSize, mipMapSize)"
    by (rule levelSizes_SomeD)
  note c = readHeader_chain [OF fields enc]
  show "readHeader txb (TXB_new txb) = (None, txb', snd (snd (readHeader txb (TXB_new txb))))"
    using c(1,2) by (cases "readHeader txb (TXB_new txb)") auto
  show "mDataSize (snd (snd (readHeader txb (TXB_new txb)))) = dataSize"
    and "mTxiData (snd (snd (readHeader txb (TXB_new txb)))) = None"
    by (rule c(4), rule c(5))
qed

lemma load_after_readData:
  assumes rh: "readHeader txb (TXB_new txb) = (None, txb1, t1)"
    and dat: "readData txb1 t1 = (None, txb2, t2)"
    and txi: "readTXIData (seekTXI txb2 t2) t2 = (r3, txb3, t3)"
  shows "\<exists>p. snd (load (TXB_new txb)) = t3\<lparr>mTxb := p\<rparr>"
  using assms
  by (cases r3) (auto simp add: load_def load_try_def TXB_new_def)

lemma length_headerBytes [simp]:
  "length (headerBytes dataSize w16 h16 encoding mipMapCount) = 128"
  by (simp add: headerBytes_def)

lemma readData_one_level:
  assumes "mMipMaps t = [x]" and "length rest = unat (mmSize x) + k"
    and "length hb = p"
  shows "readData \<lparr>sdata = hb @ rest, spos = p, serr = e\<rparr> t =
     (None, \<lparr>sdata = hb @ rest, spos = p + unat (mmSize x), serr = e\<rparr>,
      t\<lparr>mMipMaps := [x\<lparr>mmData := Some (take (unat (mmSize x)) rest)\<rparr>]\<rparr>)"
  using assms
  by (simp add: readData_def read_new_def read_s_def Let_def)


lemma readHeader_4x4:
  assumes "S = memStream (headerBytes 16 4 4 0x0A 1 @ rest)"
  obtains t1 where "readHeader S (TXB_new S) = (None, S\<lparr>spos := 128\<rparr>, t1)"
    and "mMipMaps t1 = [level 4 4 8 8]" and "mDataSize t1 = 16"
proof -
  have fields: "readFields S = ((16, 4, 4, 0x0A, 1), S\<lparr>spos := 128\<rparr>)"
    unfolding assms using readFields_memStream [of 16 4 4 "0x0A" 1 rest] by simp
  have enc: "encodingSizes 0x0A 4 4 1 16 =
     Inr (True, False, kPixelFormatBGR, kPixelFormatDXT1, kPixelDataType8, 8, 8)"
    by (simp add: encodingSizes_def kEncodingBGRA_def kEncodingDXT1_def)
  note c = readHeader_chain [OF fields enc]
  define t1 where "t1 = snd (snd (readHeader S (TXB_new S)))"
  have "readHeader S (TXB_new S) = (None, S\<lparr>spos := 128\<rparr>, t1)"
    unfolding t1_def using c(1,2) by (cases "readHeader S (TXB_new S)") auto
  moreover have "mMipMaps t1 = [level 4 4 8 8]"
    unfolding t1_def c(3) by (simp add: mipMapLoop_Nil invalidDims_def)
  moreover have "mDataSize t1 = 16"
    unfolding t1_def by (rule c(4))
  ultimately show thesis by (rule that)
qed








lemma unat_size_minus_pos:
  "unat (of_nat L - of_nat P :: uint32) = nat ((int L - int P) mod 2 ^ 32)"
proof -
  have a: "uint (of_nat L :: uint32) = int L mod 2 ^ 32"
    and b: "uint (of_nat P :: uint32) = int P mod 2 ^ 32"
    by (simp_all add: uint_nat unat_of_nat zmod_int)
  have "uint (of_nat L - of_nat P :: uint32) =
      (uint (of_nat L :: uint32) - uint (of_nat P :: uint32)) mod 2 ^ 32"
    by (simp add: uint_word_ariths)
  also have "\<dots> = (int L - int P) mod 2 ^ 32"
    unfolding a b by (simp add: mod_diff_eq)
  finally show ?thesis by (simp add: unat_eq_nat_uint)
qed

lemma readTXIData_getTXI:
  assumes "readTXIData s t = (r, s', t')" and "mTxiData t = None"
  shows "case getTXI t' of
           None \<Rightarrow> mTxiDataSize t' = 0
         | Some g \<Rightarrow> mTxiDataSize t' \<noteq> 0 \<and> length (sdata g) = unat (mTxiDataSize t') \<and>
                     sdata g \<noteq> []"
proof -
  let ?n = "size_s s - pos_s s"
  obtain buf k s1 where rd: "read_new s (unat ?n) = (buf, k, s1)"
    by (cases "read_new s (unat ?n)")
  have len: "length buf = unat ?n" by (rule read_new_props(1) [OF rd])
  show ?thesis
  proof (cases "?n = 0")
    case True
    with assms show ?thesis
      by (auto simp add: readTXIData_def getTXI_def)
  next
    case False
    then have "unat ?n \<noteq> 0" by (simp add: unat_eq_0)
    with len have "take (unat ?n) buf \<noteq> []" by auto
    with assms rd False len show ?thesis
      by (auto simp add: readTXIData_def getTXI_def Let_def MemoryReadStream_def
            split: if_splits)
  qed
qed

lemma readHeader_result:
  assumes "S = memStream (headerBytes dataSize w16 h16 encoding mipMapCount @ rest)"
    and enc: "encodingSizes encoding (ucast w16) (ucast h16) mipMapCount dataSize =
                Inr (co, al, f, fr, dt, m, sz)"
  obtains t1 where "readHeader S (TXB_new S) = (None, S\<lparr>spos := 128\<rparr>, t1)"
    and "mMipMaps t1 = fst (mipMapLoop 0 mipMapCount m (ucast w16) (ucast h16) sz dataSize [])"
    and "mDataSize t1 = dataSize" and "mTxiData t1 = None"
proof -
  have fields: "readFields S =
      ((dataSize, ucast w16, ucast h16, encoding, mipMapCount), S\<lparr>spos := 128\<rparr>)"
    unfolding assms(1) by (rule readFields_memStream)
  note c = readHeader_chain [OF fields enc]
  define t1 where "t1 = snd (snd (readHeader S (TXB_new S)))"
  have "readHeader S (TXB_new S) = (None, S\<lparr>spos := 128\<rparr>, t1)"
    unfolding t1_def using c(1,2) by (cases "readHeader S (TXB_new S)") auto
  moreover have "mMipMaps t1 =
      fst (mipMapLoop 0 mipMapCount m (ucast w16) (ucast h16) sz dataSize [])"
    unfolding t1_def by (rule c(3))
  moreover have "mDataSize t1 = dataSize" "mTxiData t1 = None"
    unfolding t1_def by (rule c(4), rule c(5))
  ultimately show thesis by (rule that)
qed

lemma load_wrapped_seek:
  assumes S_def: "S = memStream (headerBytes 4294967280 1 1 0x04 1 @ [9, 9, 9, 9])"
  shows "\<exists>t1 t2. readHeader S (TXB_new S) = (None, S\<lparr>spos := 128\<rparr>, t1) \<and>
           readData (S\<lparr>spos := 128\<rparr>) t1 = (None, S\<lparr>spos := 132\<rparr>, t2) \<and>
           spos (seekTXI (S\<lparr>spos := 132\<rparr>) t2) = 112 \<and>
           fst (load (TXB_new S)) = None \<and>
           mTxiDataSize (snd (load (TXB_new S))) = 20 \<and>
           map_option sdata (getTXI (snd (load (TXB_new S)))) =
             Some (replicate 16 0 @ [9, 9, 9, 9])"
proof -
  have enc: "encodingSizes 0x04 (ucast (1 :: uint16)) (ucast (1 :: uint16)) 1 4294967280 =
     Inr (False, True, kPixelFormatBGRA, kPixelFormatRGBA8, kPixelDataType8, 4, 4)"
    by (simp add: encodingSizes_def kEncodingBGRA_def)
  obtain t1 where rh: "readHeader S (TXB_new S) = (None, S\<lparr>spos := 128\<rparr>, t1)"
    and chain0: "mMipMaps t1 = fst (mipMapLoop 0 1 4 (ucast (1 :: uint16)) (ucast (1 :: uint16)) 4 4294967280 [])"
    and size: "mDataSize t1 = 4294967280" and none: "mTxiData t1 = None"
    using S_def enc by (rule readHeader_result)
  have chain: "mMipMaps t1 = [level 1 1 4 4]"
    unfolding chain0 by (simp add: mipMapLoop_Nil invalidDims_def)
  define t2 where "t2 = t1\<lparr>mMipMaps := [(level 1 1 4 4)\<lparr>mmData := Some [9, 9, 9, 9]\<rparr>]\<rparr>"
  have dat: "readData (S\<lparr>spos := 128\<rparr>) t1 = (None, S\<lparr>spos := 132\<rparr>, t2)"
    unfolding t2_def
    using readData_one_level [OF chain, of "[9, 9, 9, 9]" 0
        "headerBytes 4294967280 1 1 0x04 1" 128 False]
    by (simp add: S_def memStream_def level_def)
  have seek: "seekTXI (S\<lparr>spos := 132\<rparr>) t2 = S\<lparr>spos := 112\<rparr>"
    by (simp add: seekTXI_def seek_s_def t2_def size S_def memStream_def)
  define t3 where "t3 = t2\<lparr>mTxiDataSize := 20, mTxiData := Some (replicate 16 0 @ [9, 9, 9, 9])\<rparr>"
  have txi: "readTXIData (S\<lparr>spos := 112\<rparr>) t2 = (None, S\<lparr>spos := 132\<rparr>, t3)"
    by (simp add: readTXIData_def size_s_def pos_s_def read_new_def read_s_def Let_def
          S_def memStream_def headerBytes_def t3_def)
  have ptr: "mTxb (TXB_new S) = Some S" by (simp add: TXB_new_def)
  have noerr: "\<not> err_s (S\<lparr>spos := 132\<rparr>)" by (simp add: err_s_def S_def memStream_def)
  have ld: "load (TXB_new S) = (None, t3\<lparr>mTxb := None\<rparr>)"
    by (simp add: load_def load_try_def ptr rh dat seek txi noerr)
  have "spos (seekTXI (S\<lparr>spos := 132\<rparr>) t2) = 112" by (simp add: seek)
  moreover have "mTxiDataSize (snd (load (TXB_new S))) = 20"
    and "map_option sdata (getTXI (snd (load (TXB_new S)))) =
             Some (replicate 16 0 @ [9, 9, 9, 9])"
    by (simp_all add: ld t3_def getTXI_def MemoryReadStream_def)
  ultimately show ?thesis using rh dat ld by simp
qed


text \<open>
  C3. When \<^verbatim>\<open>readHeader\<close> and \<^verbatim>\<open>readData\<close> have returned, \<^verbatim>\<open>load()\<close> moves
  the stream to the header's data size plus 128 reduced modulo \<open>2 ^ 32\<close> (the
  sum is a \<^verbatim>\<open>uint32\<close> one), whatever the levels took, and \<^verbatim>\<open>readTXIData\<close>
  sets the TXI size to the size of the stream minus that position, again
  modulo \<open>2 ^ 32\<close>. After \<^verbatim>\<open>load()\<close>, \<^verbatim>\<open>getTXI\<close> returns null exactly when
  that size is 0, and a stream it returns has exactly that many bytes and is
  not empty.
\<close>

theorem txi_read_after_declared_size:
  assumes fields: "readFields txb = ((dataSize, width, height, encoding, mipMapCount), txb')"
    and hdr: "fst (readHeader txb (TXB_new txb)) = None"
    and dat: "readData txb' (snd (snd (readHeader txb (TXB_new txb)))) = (None, txb2, t2)"
  shows "spos (seekTXI txb2 t2) = (unat dataSize + 128) mod 2 ^ 32 \<and>
         sdata (seekTXI txb2 t2) = sdata txb \<and>
         unat (mTxiDataSize (snd (load (TXB_new txb)))) =
           nat ((int (length (sdata txb)) - int (spos (seekTXI txb2 t2))) mod 2 ^ 32) \<and>
         (case getTXI (snd (load (TXB_new txb))) of
            None \<Rightarrow> mTxiDataSize (snd (load (TXB_new txb))) = 0
          | Some g \<Rightarrow> mTxiDataSize (snd (load (TXB_new txb))) \<noteq> 0 \<and>
                      length (sdata g) = unat (mTxiDataSize (snd (load (TXB_new txb)))) \<and>
                      sdata g \<noteq> [])"
proof -
  note h = readHeader_ok [OF fields hdr]
  note d = readData_props [OF dat]
  have size: "mDataSize t2 = dataSize" and none: "mTxiData t2 = None"
    using d(5,6) h(2,3) by simp_all
  have pos: "spos (seekTXI txb2 t2) = (unat dataSize + 128) mod 2 ^ 32"
    by (simp add: seekTXI_def seek_s_def size unat_word_ariths(1))
  have "sdata txb' = sdata txb"
    using readFields_sdata [of txb] fields by simp
  then have data: "sdata (seekTXI txb2 t2) = sdata txb"
    using d(1) by (simp add: seekTXI_def seek_s_def)
  obtain r3 txb3 t3 where txi: "readTXIData (seekTXI txb2 t2) t2 = (r3, txb3, t3)"
    by (cases "readTXIData (seekTXI txb2 t2) t2")
  have "mTxiDataSize t3 = size_s (seekTXI txb2 t2) - pos_s (seekTXI txb2 t2)"
    by (rule readTXIData_props(1) [OF txi])
  then have rem: "unat (mTxiDataSize t3) =
      nat ((int (length (sdata txb)) - int (spos (seekTXI txb2 t2))) mod 2 ^ 32)"
    by (simp add: size_s_def pos_s_def data unat_size_minus_pos)
  obtain p where final: "snd (load (TXB_new txb)) = t3\<lparr>mTxb := p\<rparr>"
    using load_after_readData [OF h(1) dat txi] by blast
  have get: "getTXI (t3\<lparr>mTxb := p\<rparr>) = getTXI t3"
    by (simp add: getTXI_def split: option.splits)
  show ?thesis
    using pos data rem readTXIData_getTXI [OF txi none]
    by (simp add: final get split: option.splits)
qed

theorem txi_read_after_declared_size_witness:
  "readFields (memStream (headerBytes 16 4 4 0x0A 1 @ replicate 16 7 @ [1, 2, 3])) =
     ((16, 4, 4, 0x0A, 1),
      (memStream (headerBytes 16 4 4 0x0A 1 @ replicate 16 7 @ [1, 2, 3]))\<lparr>spos := 128\<rparr>) \<and>
   fst (readHeader (memStream (headerBytes 16 4 4 0x0A 1 @ replicate 16 7 @ [1, 2, 3]))
     (TXB_new (memStream (headerBytes 16 4 4 0x0A 1 @ replicate 16 7 @ [1, 2, 3])))) = None \<and>
   fst (readData ((memStream (headerBytes 16 4 4 0x0A 1 @ replicate 16 7 @ [1, 2, 3]))\<lparr>spos := 128\<rparr>)
     (snd (snd (readHeader (memStream (headerBytes 16 4 4 0x0A 1 @ replicate 16 7 @ [1, 2, 3]))
       (TXB_new (memStream (headerBytes 16 4 4 0x0A 1 @ replicate 16 7 @ [1, 2, 3]))))))) = None \<and>
   spos (fst (snd (readData ((memStream (headerBytes 16 4 4 0x0A 1 @ replicate 16 7 @ [1, 2, 3]))\<lparr>spos := 128\<rparr>)
     (snd (snd (readHeader (memStream (headerBytes 16 4 4 0x0A 1 @ replicate 16 7 @ [1, 2, 3]))
       (TXB_new (memStream (headerBytes 16 4 4 0x0A 1 @ replicate 16 7 @ [1, 2, 3])))))))))
     = 136 \<and>
   unat (mTxiDataSize (snd (load (TXB_new
     (memStream (headerBytes 16 4 4 0x0A 1 @ replicate 16 7 @ [1, 2, 3])))))) = 3 \<and>
   getTXI (snd (load (TXB_new
     (memStream (headerBytes 16 4 4 0x0A 1 @ replicate 16 7 @ [1, 2, 3]))))) \<noteq> None"
proof -
  define G where "G = memStream (headerBytes 16 4 4 0x0A 1 @ replicate 16 7 @ [1, 2, 3])"
  have fields: "readFields G = ((16, 4, 4, 0x0A, 1), G\<lparr>spos := 128\<rparr>)"
    unfolding G_def
    using readFields_memStream [of 16 4 4 "0x0A" 1 "replicate 16 7 @ [1, 2, 3]"] by simp
  obtain u1 where rh: "readHeader G (TXB_new G) = (None, G\<lparr>spos := 128\<rparr>, u1)"
    and chain: "mMipMaps u1 = [level 4 4 8 8]"
    using G_def by (rule readHeader_4x4)
  have u1: "snd (snd (readHeader G (TXB_new G))) = u1" and hdr: "fst (readHeader G (TXB_new G)) = None"
    by (simp_all add: rh)
  define u2 where "u2 = u1\<lparr>mMipMaps := [(level 4 4 8 8)\<lparr>mmData := Some (replicate 8 7)\<rparr>]\<rparr>"
  have dat: "readData (G\<lparr>spos := 128\<rparr>) u1 = (None, G\<lparr>spos := 136\<rparr>, u2)"
    unfolding u2_def
    using readData_one_level [OF chain, of "replicate 16 7 @ [1, 2, 3]" 11
        "headerBytes 16 4 4 0x0A 1" 128 False]
    by (simp add: G_def memStream_def level_def)
  have len: "length (sdata G) = 147"
    by (simp add: G_def memStream_def)
  from txi_read_after_declared_size [OF fields hdr dat [folded u1]]
  have "unat (mTxiDataSize (snd (load (TXB_new G)))) = 3"
    and "getTXI (snd (load (TXB_new G))) \<noteq> None"
    by (auto simp add: len split: option.splits)
  then show ?thesis
    unfolding G_def [symmetric] using fields hdr by (simp add: u1 dat)
qed

text \<open>
  A 1 x 1 raw BGRA file with the data size 4294967280 in its header and 4 bytes
  of pixel data: the seek goes to 112, not to \<open>128 + 4294967280\<close>, and the TXI
  data are the last 16 bytes of the header and the 4 pixel bytes.
\<close>

theorem txi_seek_wraps:
  "fst (readHeader (memStream (headerBytes 4294967280 1 1 0x04 1 @ [9, 9, 9, 9]))
     (TXB_new (memStream (headerBytes 4294967280 1 1 0x04 1 @ [9, 9, 9, 9])))) = None \<and>
   fst (readData
     (fst (snd (readHeader (memStream (headerBytes 4294967280 1 1 0x04 1 @ [9, 9, 9, 9]))
        (TXB_new (memStream (headerBytes 4294967280 1 1 0x04 1 @ [9, 9, 9, 9]))))))
     (snd (snd (readHeader (memStream (headerBytes 4294967280 1 1 0x04 1 @ [9, 9, 9, 9]))
        (TXB_new (memStream (headerBytes 4294967280 1 1 0x04 1 @ [9, 9, 9, 9]))))))) = None \<and>
   spos (seekTXI
     (fst (snd (readData
       (fst (snd (readHeader (memStream (headerBytes 4294967280 1 1 0x04 1 @ [9, 9, 9, 9]))
          (TXB_new (memStream (headerBytes 4294967280 1 1 0x04 1 @ [9, 9, 9, 9]))))))
       (snd (snd (readHeader (memStream (headerBytes 4294967280 1 1 0x04 1 @ [9, 9, 9, 9]))
          (TXB_new (memStream (headerBytes 4294967280 1 1 0x04 1 @ [9, 9, 9, 9])))))))))
     (snd (snd (readData
       (fst (snd (readHeader (memStream (headerBytes 4294967280 1 1 0x04 1 @ [9, 9, 9, 9]))
          (TXB_new (memStream (headerBytes 4294967280 1 1 0x04 1 @ [9, 9, 9, 9]))))))
       (snd (snd (readHeader (memStream (headerBytes 4294967280 1 1 0x04 1 @ [9, 9, 9, 9]))
          (TXB_new (memStream (headerBytes 4294967280 1 1 0x04 1 @ [9, 9, 9, 9])))))))))) = 112 \<and>
   (112 :: nat) \<noteq> 128 + unat (4294967280 :: uint32) \<and>
   fst (load (TXB_new (memStream (headerBytes 4294967280 1 1 0x04 1 @ [9, 9, 9, 9])))) = None \<and>
   mTxiDataSize (snd (load (TXB_new
     (memStream (headerBytes 4294967280 1 1 0x04 1 @ [9, 9, 9, 9]))))) = 20 \<and>
   map_option sdata (getTXI (snd (load (TXB_new
     (memStream (headerBytes 4294967280 1 1 0x04 1 @ [9, 9, 9, 9])))))) =
     Some (replicate 16 0 @ [9, 9, 9, 9])"
proof -
  define S where "S = memStream (headerBytes 4294967280 1 1 0x04 1 @ [9, 9, 9, 9])"
  from load_wrapped_seek [OF S_def] obtain t1 t2 where
    rh: "readHeader S (TXB_new S) = (None, S\<lparr>spos := 128\<rparr>, t1)"
    and dat: "readData (S\<lparr>spos := 128\<rparr>) t1 = (None, S\<lparr>spos := 132\<rparr>, t2)"
    and rest: "spos (seekTXI (S\<lparr>spos := 132\<rparr>) t2) = 112"
      "fst (load (TXB_new S)) = None"
      "mTxiDataSize (snd (load (TXB_new S))) = 20"
      "map_option sdata (getTXI (snd (load (TXB_new S)))) = Some (replicate 16 0 @ [9, 9, 9, 9])"
    by blast
  show ?thesis
    unfolding S_def [symmetric] using rest by (simp add: rh dat)
qed




end
